theory Spec2Isabelle
  imports Main "HOL-Library.Monad_Syntax" "HOL-Library.Sublist"
begin

section \<open>Text as the script sees it\<close>

text \<open>
  The script \<^verbatim>\<open>scripts/add-client.py\<close> works on Python \<^verbatim>\<open>str\<close> values. A text is
  modelled as a \<^typ>\<open>string\<close> whose characters are the code points below 256. On these
  code points Python's \<^verbatim>\<open>\s\<close> and \<^verbatim>\<open>str.strip\<close> agree on the white space
  (tab to carriage return, the four separators 0x1C to 0x1F, blank, 0x85 and 0xA0), and
  \<^verbatim>\<open>\d\<close> is one of the ten ASCII digits.
\<close>

definition is_space :: "char \<Rightarrow> bool" where
  "is_space c \<longleftrightarrow>
     c \<in> set [CHR 0x09, CHR 0x0A, CHR 0x0B, CHR 0x0C, CHR 0x0D, CHR 0x1C, CHR 0x1D,
              CHR 0x1E, CHR 0x1F, CHR 0x20, CHR 0x85, CHR 0xA0]"

definition is_digit :: "char \<Rightarrow> bool" where
  "is_digit c \<longleftrightarrow> c \<in> set ''0123456789''"

text \<open>\<^verbatim>\<open>s.strip()\<close>\<close>

definition strip :: "string \<Rightarrow> string" where
  "strip s = rev (dropWhile is_space (rev (dropWhile is_space s)))"

text \<open>
  \<^verbatim>\<open>open(path, 'r').read()\<close> reads in text mode with universal newlines: a carriage
  return followed by a line feed, and a carriage return alone, arrive as one line feed.
\<close>

fun universal_newlines :: "string \<Rightarrow> string" where
  "universal_newlines [] = []"
| "universal_newlines [c] = (if c = CHR 0x0D then [CHR 0x0A] else [c])"
| "universal_newlines (c # d # cs) =
     (if c = CHR 0x0D \<and> d = CHR 0x0A then CHR 0x0A # universal_newlines cs
      else if c = CHR 0x0D then CHR 0x0A # universal_newlines (d # cs)
      else c # universal_newlines (d # cs))"

text \<open>\<^verbatim>\<open>s.split('\n')\<close>: the pieces between line feeds, always at least one piece.\<close>

fun split_nl :: "string \<Rightarrow> string list" where
  "split_nl [] = [[]]"
| "split_nl (c # cs) =
     (case split_nl cs of
        [] \<Rightarrow> [[c]]
      | piece # pieces \<Rightarrow>
          if c = CHR 0x0A then [] # piece # pieces else (c # piece) # pieces)"

text \<open>\<^verbatim>\<open>int(ip)\<close> on a run of digits, and the decimal rendering of an f-string.\<close>

definition digit_val :: "char \<Rightarrow> nat" where
  "digit_val c = of_char c - 48"

definition int_of_digits :: "string \<Rightarrow> nat" where
  "int_of_digits s = foldl (\<lambda>n c. 10 * n + digit_val c) 0 s"

definition digit_char :: "nat \<Rightarrow> char" where
  "digit_char d = char_of (48 + d)"

fun show_nat :: "nat \<Rightarrow> string" where
  "show_nat n = (if n < 10 then [digit_char n] else show_nat (n div 10) @ [digit_char (n mod 10)])"

declare show_nat.simps [simp del]

section \<open>The regular expressions of the script\<close>

text \<open>
  Each pattern of the script is a sequence of literals, \<^verbatim>\<open>\s*\<close>, \<^verbatim>\<open>\d+\<close> and
  \<^verbatim>\<open>\S+\<close> in which every repetition is followed by a literal whose first character lies
  outside the repeated class (or by nothing). A backtracking matcher can therefore only
  succeed with the longest run, and the anchored match is the deterministic composition
  of the pieces below: \<open>lit\<close> for a literal, \<open>spaces\<close> for \<^verbatim>\<open>\s*\<close>, \<open>digits1\<close> for
  \<^verbatim>\<open>\d+\<close> and \<open>nonspace1\<close> for \<^verbatim>\<open>\S+\<close>. Each returns the rest of the input.
\<close>

definition lit :: "string \<Rightarrow> string \<Rightarrow> string option" where
  "lit p s = (if prefix p s then Some (drop (length p) s) else None)"

definition spaces :: "string \<Rightarrow> string" where
  "spaces s = dropWhile is_space s"

definition digits1 :: "string \<Rightarrow> (string \<times> string) option" where
  "digits1 s =
     (if takeWhile is_digit s = [] then None
      else Some (takeWhile is_digit s, dropWhile is_digit s))"

definition nonspace1 :: "string \<Rightarrow> (string \<times> string) option" where
  "nonspace1 s =
     (if takeWhile (\<lambda>c. \<not> is_space c) s = [] then None
      else Some (takeWhile (\<lambda>c. \<not> is_space c) s, dropWhile (\<lambda>c. \<not> is_space c) s))"

text \<open>
  \<^verbatim>\<open>Address\s*=\s*(\d+\.\d+\.\d+)\.\d+/\d+\<close> matched at the head of the input; the
  result is group 1.
\<close>

definition match_address :: "string \<Rightarrow> string option" where
  "match_address s = do {
     s1 \<leftarrow> lit ''Address'' s;
     s2 \<leftarrow> lit ''='' (spaces s1);
     (a, s3) \<leftarrow> digits1 (spaces s2);
     s4 \<leftarrow> lit ''.'' s3;
     (b, s5) \<leftarrow> digits1 s4;
     s6 \<leftarrow> lit ''.'' s5;
     (c, s7) \<leftarrow> digits1 s6;
     s8 \<leftarrow> lit ''.'' s7;
     (d, s9) \<leftarrow> digits1 s8;
     s10 \<leftarrow> lit ''/'' s9;
     (e, s11) \<leftarrow> digits1 s10;
     Some (a @ ''.'' @ b @ ''.'' @ c)
   }"

text \<open>\<^verbatim>\<open>re.search\<close>: the match at the leftmost position that has one.\<close>

fun search_address :: "string \<Rightarrow> string option" where
  "search_address [] = match_address []"
| "search_address (c # cs) =
     (case match_address (c # cs) of
        Some g \<Rightarrow> Some g
      | None \<Rightarrow> search_address cs)"

text \<open>
  \<^verbatim>\<open>AllowedIPs\s*=\s*{re.escape(vpn_network)}\.(\d+)/32\<close> at the head of the input:
  group 1 and the rest of the input after the match. The escaped network is a literal.
\<close>

definition match_allowed :: "string \<Rightarrow> string \<Rightarrow> (string \<times> string) option" where
  "match_allowed vpn_network s = do {
     s1 \<leftarrow> lit ''AllowedIPs'' s;
     s2 \<leftarrow> lit ''='' (spaces s1);
     s3 \<leftarrow> lit vpn_network (spaces s2);
     s4 \<leftarrow> lit ''.'' s3;
     (d, s5) \<leftarrow> digits1 s4;
     s6 \<leftarrow> lit ''/32'' s5;
     Some (d, s6)
   }"

text \<open>
  \<^verbatim>\<open>re.findall\<close>: group 1 of every match, scanning from the left; after a match the
  scan goes on behind it, otherwise one character further.
\<close>

function findall_allowed :: "string \<Rightarrow> string \<Rightarrow> string list" where
  "findall_allowed vpn_network [] = []"
| "findall_allowed vpn_network (c # cs) =
     (case match_allowed vpn_network (c # cs) of
        Some (d, r) \<Rightarrow> d # findall_allowed vpn_network r
      | None \<Rightarrow> findall_allowed vpn_network cs)"
  by pat_completeness auto
termination
proof (relation "measure (\<lambda>(p, s). length s)")
  show "wf (measure (\<lambda>(p, s). length s))" by simp
next
  fix vpn_network c cs x2 d r
  assume m: "match_allowed vpn_network (c # cs) = Some x2" and x2: "(d, r) = x2"
  have L: "length y \<le> length x" if "lit p x = Some y" for p x y
    using that by (auto simp: lit_def split: if_splits)
  have S: "length (spaces x) \<le> length x" for x
    by (simp add: spaces_def length_dropWhile_le)
  have D: "length y < length x" if "digits1 x = Some (e, y)" for e x y
  proof -
    from that have "takeWhile is_digit x \<noteq> []" and "y = dropWhile is_digit x"
      by (auto simp: digits1_def split: if_splits)
    moreover have "length (takeWhile is_digit x) + length (dropWhile is_digit x) = length x"
      by (metis length_append takeWhile_dropWhile_id)
    ultimately show ?thesis by (cases "takeWhile is_digit x") auto
  qed
  from m x2 obtain s1 s2 s3 s4 s5 where
    "lit ''AllowedIPs'' (c # cs) = Some s1" "lit ''='' (spaces s1) = Some s2"
    "lit vpn_network (spaces s2) = Some s3" "lit ''.'' s3 = Some s4"
    "digits1 s4 = Some (d, s5)" "lit ''/32'' s5 = Some r"
    by (auto simp: match_allowed_def bind_eq_Some_conv)
  then have "length r < length (c # cs)"
    using L [of "''AllowedIPs''" "c # cs" s1] L [of "''=''" "spaces s1" s2]
      L [of vpn_network "spaces s2" s3] L [of "''.''" s3 s4] D [of s4 d s5]
      L [of "''/32''" s5 r] S [of s1] S [of s2]
    by linarith
  then show "((vpn_network, r), vpn_network, c # cs) \<in> measure (\<lambda>(p, s). length s)"
    by simp
next
  fix vpn_network :: string and c :: char and cs :: string
  show "((vpn_network, cs), vpn_network, c # cs) \<in> measure (\<lambda>(p, s). length s)" by simp
qed

text \<open>\<^verbatim>\<open>PrivateKey\s*=\s*(\S+)\<close>, searched like the address.\<close>

definition match_private_key :: "string \<Rightarrow> string option" where
  "match_private_key s = do {
     s1 \<leftarrow> lit ''PrivateKey'' s;
     s2 \<leftarrow> lit ''='' (spaces s1);
     (k, s3) \<leftarrow> nonspace1 (spaces s2);
     Some k
   }"

fun search_private_key :: "string \<Rightarrow> string option" where
  "search_private_key [] = match_private_key []"
| "search_private_key (c # cs) =
     (case match_private_key (c # cs) of
        Some g \<Rightarrow> Some g
      | None \<Rightarrow> search_private_key cs)"

text \<open>
  \<^verbatim>\<open>^\s*{param}\s*=\s*(\d+)\<close> with \<^verbatim>\<open>re.MULTILINE\<close>: the pattern is tried at the
  start of the text and behind every line feed, leftmost first.
\<close>

definition match_param :: "string \<Rightarrow> string \<Rightarrow> string option" where
  "match_param param s = do {
     s1 \<leftarrow> lit param (spaces s);
     s2 \<leftarrow> lit ''='' (spaces s1);
     (d, s3) \<leftarrow> digits1 (spaces s2);
     Some d
   }"

fun search_param_lines :: "string \<Rightarrow> string \<Rightarrow> string option" where
  "search_param_lines param [] = None"
| "search_param_lines param (c # cs) =
     (if c = CHR 0x0A then
        (case match_param param cs of
           Some d \<Rightarrow> Some d
         | None \<Rightarrow> search_param_lines param cs)
      else search_param_lines param cs)"

definition search_param :: "string \<Rightarrow> string \<Rightarrow> string option" where
  "search_param param s =
     (case match_param param s of
        Some d \<Rightarrow> Some d
      | None \<Rightarrow> search_param_lines param s)"

section \<open>The world of one invocation\<close>

text \<open>
  The file system is a store from the path strings the script builds to what is found
  there. A path is a key as it is spelled: the store does not resolve \<^verbatim>\<open>.\<close>, \<^verbatim>\<open>..\<close>,
  repeated slashes or symbolic links, so two spellings of one file are two keys. The
  store therefore follows the script for the client names that are one path component
  (\<open>one_component\<close> below: not empty, no slash, neither \<^verbatim>\<open>.\<close> nor \<^verbatim>\<open>..\<close>); for such a
  name every path the script builds is already resolved. What the script does for
  another name, whose paths the operating system resolves to other files, is outside
  the store and is traced with \<open>resolve_path\<close>. File modes (the \<^verbatim>\<open>chmod\<close> calls) are left
  out. The external commands
  are parameters of the world: what \<^verbatim>\<open>awg genkey\<close>, \<^verbatim>\<open>awg pubkey\<close> (as a function of
  its standard input) and \<^verbatim>\<open>awg genpsk\<close> print, \<open>None\<close> when the command exits with a
  non-zero code; and whether \<^verbatim>\<open>ip link show\<close> finds an interface, \<open>None\<close> when running
  it raises.
\<close>

datatype node = Dir | File string

type_synonym filesystem = "string \<Rightarrow> node option"

record world =
  argv :: "string list"
  environ :: "string \<Rightarrow> string option"
  files :: filesystem
  awg_genkey :: "string option"
  awg_pubkey :: "string \<Rightarrow> string option"
  awg_genpsk :: "string option"
  ip_link_show :: "string \<Rightarrow> bool option"

text \<open>
  Every error ends the run with exit code 1. \<open>OSError\<close> stands for the exceptions the
  file operations raise and the script does not catch. \<open>AddressSpaceExhaustedError\<close> is
  the name the specification uses; no branch of the script produces it.
\<close>

datatype error =
    UsageError
  | NotInitializedError
  | DuplicateClientError
  | ParseError
  | CommandFailed
  | KeyFormatError
  | ServerKeyNotFound
  | OSError
  | AddressSpaceExhaustedError

record outcome =
  out_client_ip :: string
  out_ip_num :: nat
  out_private :: string
  out_public :: string
  out_preshared :: string
  out_server_public :: string
  out_client_config :: string
  out_peer_config :: string
  out_interface :: string

definition config_dir :: string where
  "config_dir = ''/etc/amnezia/amneziawg/config''"

definition server_config :: string where
  "server_config = config_dir @ ''/server.conf''"

definition server_keys :: string where
  "server_keys = config_dir @ ''/server.keys''"

definition clients_dir :: string where
  "clients_dir = config_dir @ ''/clients''"

definition client_dir :: "string \<Rightarrow> string" where
  "client_dir client_name = clients_dir @ ''/'' @ client_name"

definition client_config_file :: "string \<Rightarrow> string" where
  "client_config_file client_name = client_dir client_name @ ''/'' @ client_name @ ''.conf''"

definition lock_file :: string where
  "lock_file = config_dir @ ''/.add-client.lock''"

definition temp_peer_config :: "string \<Rightarrow> string" where
  "temp_peer_config client_name = ''/tmp/new_peer_'' @ client_name @ ''.conf''"

text \<open>
  The client names the store is faithful for: one path component. The script itself
  makes no such check on \<^verbatim>\<open>sys.argv[1]\<close>.
\<close>

definition one_component :: "string \<Rightarrow> bool" where
  "one_component name \<longleftrightarrow>
     name \<noteq> [] \<and> CHR ''/'' \<notin> set name \<and> name \<noteq> ''.'' \<and> name \<noteq> ''..''"




definition path_exists :: "filesystem \<Rightarrow> string \<Rightarrow> bool" where
  "path_exists fs p \<longleftrightarrow> fs p \<noteq> None"

text \<open>\<^verbatim>\<open>os.makedirs(p, exist_ok=True)\<close>\<close>

definition makedirs :: "filesystem \<Rightarrow> string \<Rightarrow> error + filesystem" where
  "makedirs fs p =
     (case fs p of
        Some (File _) \<Rightarrow> Inl OSError
      | _ \<Rightarrow> Inr (fs(p \<mapsto> Dir)))"

definition read_text :: "filesystem \<Rightarrow> string \<Rightarrow> error + string" where
  "read_text fs p =
     (case fs p of
        Some (File content) \<Rightarrow> Inr (universal_newlines content)
      | _ \<Rightarrow> Inl OSError)"

definition write_text :: "filesystem \<Rightarrow> string \<Rightarrow> string \<Rightarrow> error + filesystem" where
  "write_text fs p content =
     (case fs p of
        Some Dir \<Rightarrow> Inl OSError
      | _ \<Rightarrow> Inr (fs(p \<mapsto> File content)))"

definition append_text :: "filesystem \<Rightarrow> string \<Rightarrow> string \<Rightarrow> error + filesystem" where
  "append_text fs p content =
     (case fs p of
        Some Dir \<Rightarrow> Inl OSError
      | Some (File old) \<Rightarrow> Inr (fs(p \<mapsto> File (old @ content)))
      | None \<Rightarrow> Inr (fs(p \<mapsto> File content)))"

definition remove_file :: "filesystem \<Rightarrow> string \<Rightarrow> error + filesystem" where
  "remove_file fs p =
     (case fs p of
        Some (File _) \<Rightarrow> Inr (fs(p := None))
      | _ \<Rightarrow> Inl OSError)"

definition getenv :: "world \<Rightarrow> string \<Rightarrow> string \<Rightarrow> string" where
  "getenv w name fallback = (case environ w name of Some v \<Rightarrow> v | None \<Rightarrow> fallback)"

text \<open>\<^verbatim>\<open>run_cmd_with_input\<close>: exit on a non-zero return code, else the stripped output.\<close>

definition run_cmd_with_input :: "string option \<Rightarrow> error + string" where
  "run_cmd_with_input result =
     (case result of
        None \<Rightarrow> Inl CommandFailed
      | Some stdout \<Rightarrow> Inr (strip stdout))"

section \<open>The steps of \<open>main\<close>\<close>

text \<open>Lines 36 to 45: the checks made before the lock is taken.\<close>

definition precondition_check :: "filesystem \<Rightarrow> string \<Rightarrow> error + unit" where
  "precondition_check fs client_name =
     (if \<not> path_exists fs server_config then Inl NotInitializedError
      else if path_exists fs (client_dir client_name) then Inl DuplicateClientError
      else Inr ())"

text \<open>Lines 63 to 80: the network prefix and the next host number.\<close>

definition py_max :: "nat list \<Rightarrow> nat" where
  "py_max xs = foldl max (hd xs) (tl xs)"

definition next_ip_num :: "string list \<Rightarrow> nat" where
  "next_ip_num existing_ips =
     (if existing_ips \<noteq> [] then
        (let last_ip = py_max (map int_of_digits existing_ips)
         in max (last_ip + 1) 2)
      else 2)"

definition allocate_address :: "string \<Rightarrow> error + (string \<times> nat)" where
  "allocate_address server_conf =
     (case search_address server_conf of
        None \<Rightarrow> Inl ParseError
      | Some vpn_network \<Rightarrow>
          Inr (vpn_network, next_ip_num (findall_allowed vpn_network server_conf)))"

text \<open>Lines 87 to 107: the three keys and the check of their lengths.\<close>

definition generate_keys :: "world \<Rightarrow> error + (string \<times> string \<times> string)" where
  "generate_keys w =
     (case run_cmd_with_input (awg_genkey w) of
        Inl e \<Rightarrow> Inl e
      | Inr client_private \<Rightarrow>
     (case run_cmd_with_input (awg_pubkey w client_private) of
        Inl e \<Rightarrow> Inl e
      | Inr client_public \<Rightarrow>
     (case run_cmd_with_input (awg_genpsk w) of
        Inl e \<Rightarrow> Inl e
      | Inr preshared \<Rightarrow>
          if length client_private \<noteq> 44 then Inl KeyFormatError
          else if length client_public \<noteq> 44 then Inl KeyFormatError
          else if length preshared \<noteq> 44 then Inl KeyFormatError
          else Inr (client_private, client_public, preshared))))"

text \<open>Lines 110 to 115: the key files; a failed write leaves the earlier ones.\<close>

definition save_keys ::
  "filesystem \<Rightarrow> string \<Rightarrow> string \<Rightarrow> string \<Rightarrow> string \<Rightarrow> (error + unit) \<times> filesystem" where
  "save_keys fs dir client_private client_public preshared =
     (case write_text fs (dir @ ''/privatekey'') client_private of
        Inl e \<Rightarrow> (Inl e, fs)
      | Inr fs1 \<Rightarrow>
     (case write_text fs1 (dir @ ''/publickey'') client_public of
        Inl e \<Rightarrow> (Inl e, fs1)
      | Inr fs2 \<Rightarrow>
     (case write_text fs2 (dir @ ''/presharedkey'') preshared of
        Inl e \<Rightarrow> (Inl e, fs2)
      | Inr fs3 \<Rightarrow> (Inr (), fs3))))"

text \<open>
  Lines 121 to 141: the gateway's public key, from the first line of the keys file whose
  stripped text starts with \<^verbatim>\<open>PUBLIC_KEY=\<close>, else derived from the private key of the
  configuration.
\<close>

fun find_public_key :: "string list \<Rightarrow> string" where
  "find_public_key [] = []"
| "find_public_key (line # lines) =
     (if prefix ''PUBLIC_KEY='' (strip line)
      then strip (drop 1 (dropWhile (\<lambda>c. c \<noteq> CHR ''='') line))
      else find_public_key lines)"

definition get_server_public :: "world \<Rightarrow> filesystem \<Rightarrow> string \<Rightarrow> error + string" where
  "get_server_public w fs server_conf =
     (case (if path_exists fs server_keys
            then map_sum id (\<lambda>keys_content. find_public_key (split_nl keys_content))
                   (read_text fs server_keys)
            else Inr []) of
        Inl e \<Rightarrow> Inl e
      | Inr server_public \<Rightarrow>
          if server_public = [] \<or> length server_public \<noteq> 44 then
            (case search_private_key server_conf of
               None \<Rightarrow> Inl ServerKeyNotFound
             | Some server_private \<Rightarrow> run_cmd_with_input (awg_pubkey w (strip server_private)))
          else Inr server_public)"

text \<open>Lines 150 to 160: the obfuscation parameters, by name, each with its default.\<close>

definition obf_defaults :: "(string \<times> string) list" where
  "obf_defaults =
     [(''Jc'', ''4''), (''Jmin'', ''50''), (''Jmax'', ''1000''),
      (''S1'', ''0''), (''S2'', ''0''), (''S3'', ''0''), (''S4'', ''0''),
      (''H1'', ''1''), (''H2'', ''2''), (''H3'', ''3''), (''H4'', ''4''),
      (''I1'', ''0''), (''I2'', ''0''), (''I3'', ''0''), (''I4'', ''0''), (''I5'', ''0'')]"

definition obf_params :: "string \<Rightarrow> (string \<times> string) list" where
  "obf_params server_conf =
     map (\<lambda>(param, fallback).
            (param, case search_param param server_conf of Some v \<Rightarrow> v | None \<Rightarrow> fallback))
       obf_defaults"

text \<open>
  \<^verbatim>\<open>obf_params[param]\<close>. The template only asks for names of \<open>obf_defaults\<close>, so the
  \<^verbatim>\<open>KeyError\<close> branch is never taken.
\<close>

definition obf_get :: "(string \<times> string) list \<Rightarrow> string \<Rightarrow> string" where
  "obf_get params param = (case map_of params param of Some v \<Rightarrow> v | None \<Rightarrow> [])"

text \<open>Lines 163 to 186 and 194 to 200: the two rendered texts.\<close>

definition render_client_config ::
  "string \<Rightarrow> string \<Rightarrow> string \<Rightarrow> (string \<times> string) list \<Rightarrow> string \<Rightarrow> string \<Rightarrow> string \<Rightarrow> string
     \<Rightarrow> string" where
  "render_client_config client_private client_ip dns params server_public preshared server_ip
     listen_port =
     ''[Interface]\<newline>PrivateKey = '' @ client_private @
     ''\<newline>Address = '' @ client_ip @ ''/32'' @
     ''\<newline>DNS = '' @ dns @
     ''\<newline>MTU = 1280'' @
     ''\<newline>Jc = '' @ obf_get params ''Jc'' @
     ''\<newline>Jmin = '' @ obf_get params ''Jmin'' @
     ''\<newline>Jmax = '' @ obf_get params ''Jmax'' @
     ''\<newline>S1 = '' @ obf_get params ''S1'' @
     ''\<newline>S2 = '' @ obf_get params ''S2'' @
     ''\<newline>S3 = '' @ obf_get params ''S3'' @
     ''\<newline>S4 = '' @ obf_get params ''S4'' @
     ''\<newline>H1 = '' @ obf_get params ''H1'' @
     ''\<newline>H2 = '' @ obf_get params ''H2'' @
     ''\<newline>H3 = '' @ obf_get params ''H3'' @
     ''\<newline>H4 = '' @ obf_get params ''H4'' @
     ''\<newline>\<newline>[Peer]\<newline>PublicKey = '' @ server_public @
     ''\<newline>PresharedKey = '' @ preshared @
     ''\<newline>Endpoint = '' @ server_ip @ '':'' @ listen_port @
     ''\<newline>AllowedIPs = 0.0.0.0/0, ::/0'' @
     ''\<newline>PersistentKeepalive = 25\<newline>''"

definition render_peer_config :: "string \<Rightarrow> string \<Rightarrow> string \<Rightarrow> string \<Rightarrow> string" where
  "render_peer_config client_name client_public preshared client_ip =
     ''\<newline>[Peer]\<newline># Client: '' @ client_name @
     ''\<newline>PublicKey = '' @ client_public @
     ''\<newline>PresharedKey = '' @ preshared @
     ''\<newline>AllowedIPs = '' @ client_ip @ ''/32\<newline>''"

text \<open>Lines 207 to 222: the interface the new peer is applied to.\<close>

definition resolve_interface :: "world \<Rightarrow> string" where
  "resolve_interface w =
     (let env_interface = getenv w ''INTERFACE'' ''awg0''
      in case ip_link_show w env_interface of
           Some True \<Rightarrow> env_interface
         | Some False \<Rightarrow>
             (case ip_link_show w ''server'' of
                Some True \<Rightarrow> ''server''
              | _ \<Rightarrow> ''server'')
         | None \<Rightarrow> ''server'')"

text \<open>
  Lines 56 to 237, run while the lock is held. Every failure returns the file system as
  it stands at that point: the \<^verbatim>\<open>finally\<close> clause only releases the lock. The result of
  \<^verbatim>\<open>awg addconf\<close> is ignored by the script (\<^verbatim>\<open>check=False\<close>).
\<close>

definition critical_section ::
  "world \<Rightarrow> filesystem \<Rightarrow> string \<Rightarrow> (error + outcome) \<times> filesystem" where
  "critical_section w fs client_name =
     (case makedirs fs (client_dir client_name) of
        Inl e \<Rightarrow> (Inl e, fs)
      | Inr fs1 \<Rightarrow>
     (case read_text fs1 server_config of
        Inl e \<Rightarrow> (Inl e, fs1)
      | Inr server_conf \<Rightarrow>
     (case allocate_address server_conf of
        Inl e \<Rightarrow> (Inl e, fs1)
      | Inr (vpn_network, client_ip_num) \<Rightarrow>
     (let client_ip = vpn_network @ ''.'' @ show_nat client_ip_num in
     (case generate_keys w of
        Inl e \<Rightarrow> (Inl e, fs1)
      | Inr (client_private, client_public, preshared) \<Rightarrow>
     (case save_keys fs1 (client_dir client_name) client_private client_public preshared of
        (Inl e, fs2) \<Rightarrow> (Inl e, fs2)
      | (Inr _, fs2) \<Rightarrow>
     (case get_server_public w fs2 server_conf of
        Inl e \<Rightarrow> (Inl e, fs2)
      | Inr server_public \<Rightarrow>
     (let server_ip = getenv w ''SERVER_IP'' ''YOUR_SERVER_IP'';
          listen_port = getenv w ''LISTEN_PORT'' ''51820'';
          dns = getenv w ''DNS'' ''1.1.1.1'';
          client_config = render_client_config client_private client_ip dns (obf_params server_conf)
                   server_public preshared server_ip listen_port
      in
     (case write_text fs2 (client_config_file client_name) client_config of
        Inl e \<Rightarrow> (Inl e, fs2)
      | Inr fs3 \<Rightarrow>
     (let peer_config = render_peer_config client_name client_public preshared client_ip in
     (case append_text fs3 server_config peer_config of
        Inl e \<Rightarrow> (Inl e, fs3)
      | Inr fs4 \<Rightarrow>
     (let active_interface = resolve_interface w in
     (case write_text fs4 (temp_peer_config client_name) peer_config of
        Inl e \<Rightarrow> (Inl e, fs4)
      | Inr fs5 \<Rightarrow>
     (case remove_file fs5 (temp_peer_config client_name) of
        Inl e \<Rightarrow> (Inl e, fs5)
      | Inr fs6 \<Rightarrow>
          (Inr \<lparr>out_client_ip = client_ip, out_ip_num = client_ip_num,
                out_private = client_private, out_public = client_public,
                out_preshared = preshared, out_server_public = server_public,
                out_client_config = client_config, out_peer_config = peer_config,
                out_interface = active_interface\<rparr>,
           fs6)))))))))))))))"

text \<open>
  \<open>main\<close>, lines 23 to 54 and then the critical section. The call of \<^verbatim>\<open>flock\<close> blocks
  while another invocation holds the lock; \<open>others\<close> is what the invocations that ran
  in between did to the file system. In \<open>main\<close> itself nothing runs in between.
\<close>

definition main_locked_after ::
  "(filesystem \<Rightarrow> filesystem) \<Rightarrow> world \<Rightarrow> (error + outcome) \<times> filesystem" where
  "main_locked_after others w =
     (case argv w of
        [prog, client_name] \<Rightarrow>
          (case precondition_check (files w) client_name of
             Inl e \<Rightarrow> (Inl e, files w)
           | Inr _ \<Rightarrow>
          (case makedirs (files w) config_dir of
             Inl e \<Rightarrow> (Inl e, files w)
           | Inr fs1 \<Rightarrow>
          (case write_text fs1 lock_file [] of
             Inl e \<Rightarrow> (Inl e, fs1)
           | Inr fs2 \<Rightarrow> critical_section w (others fs2) client_name)))
      | _ \<Rightarrow> (Inl UsageError, files w))"

definition main :: "world \<Rightarrow> (error + outcome) \<times> filesystem" where
  "main w = main_locked_after (\<lambda>fs. fs) w"

text \<open>
  The host numbers the script reads from the server configuration of a file system
  (lines 60 to 75): empty when there is no readable configuration or no address line.
\<close>

definition host_numbers :: "filesystem \<Rightarrow> nat list" where
  "host_numbers fs =
     (case fs server_config of
        Some (File content) \<Rightarrow>
          (case search_address (universal_newlines content) of
             Some vpn_network \<Rightarrow>
               map int_of_digits (findall_allowed vpn_network (universal_newlines content))
           | None \<Rightarrow> [])
      | _ \<Rightarrow> [])"

text \<open>A sequence of enrollments, each on the file system the one before left.\<close>

fun enroll_all :: "filesystem \<Rightarrow> world list \<Rightarrow> nat list option" where
  "enroll_all fs [] = Some []"
| "enroll_all fs (w # ws) =
     (case main (w\<lparr>files := fs\<rparr>) of
        (Inl e, fs') \<Rightarrow> None
      | (Inr out, fs') \<Rightarrow> map_option ((#) (out_ip_num out)) (enroll_all fs' ws))"

section \<open>The allocation rule in the words of the specification\<close>

text \<open>
  Section 4.3 of the specification: \<^verbatim>\<open>nextAddress(prefix, usedHostNumbers)\<close> returns
  \<^verbatim>\<open>prefix.(max(usedHostNumbers)+1)\<close> if any host numbers are in use, clamped to a
  minimum of 2, and \<^verbatim>\<open>prefix.2\<close> otherwise. This definition follows those words, not
  the script; the script's computation is \<open>allocate_address\<close>.
\<close>

definition nextAddress :: "string \<Rightarrow> nat list \<Rightarrow> string" where
  "nextAddress network_prefix usedHostNumbers =
     (if usedHostNumbers \<noteq> []
      then network_prefix @ ''.'' @ show_nat (max (Max (set usedHostNumbers) + 1) 2)
      else network_prefix @ ''.2'')"

text \<open>
  The claim speaks of the peer entries under a network prefix. In the text of a
  configuration such an entry is the word \<^verbatim>\<open>AllowedIPs\<close>, an equals sign with any white
  space around it, the prefix, a dot, the digits of the host number and \<^verbatim>\<open>/32\<close>. This
  predicate describes the text; what the script finds is \<open>findall_allowed\<close>.
\<close>

definition has_allowed_entry :: "string \<Rightarrow> string \<Rightarrow> string \<Rightarrow> bool" where
  "has_allowed_entry text network digits \<longleftrightarrow>
     (\<exists>before ws1 ws2 rest.
        text = before @ ''AllowedIPs'' @ ws1 @ ''='' @ ws2 @ network @ ''.'' @ digits @ ''/32'' @ rest \<and>
        (\<forall>c\<in>set (ws1 @ ws2). is_space c) \<and>
        digits \<noteq> [] \<and> (\<forall>c\<in>set digits. is_digit c))"

section \<open>Concrete worlds\<close>

text \<open>
  The scenario of the specification: the gateway has address 10.0.0.1/24 and one peer
  restricted to 10.0.0.2/32, and client \<^verbatim>\<open>alice\<close> is enrolled. The key commands print
  44 characters and a line feed.
\<close>

definition example_conf :: string where
  "example_conf =
     ''[Interface]\<newline>Address = 10.0.0.1/24\<newline>PrivateKey = kGatewayPrivateKey\<newline>Jc = 7\<newline>I1 = 7\<newline>\<newline>[Peer]\<newline># Client: bob\<newline>PublicKey = kBobPublicKey\<newline>PresharedKey = kBobPresharedKey\<newline>AllowedIPs = 10.0.0.2/32\<newline>''"

definition example_fs :: filesystem where
  "example_fs =
     [config_dir \<mapsto> Dir, server_config \<mapsto> File example_conf,
      server_keys \<mapsto> File (''PUBLIC_KEY='' @ replicate 44 CHR ''G'' @ ''\<newline>'')]"

definition example_world :: world where
  "example_world =
     \<lparr>argv = [''add-client.py'', ''alice''],
      environ = (\<lambda>name. None),
      files = example_fs,
      awg_genkey = Some (replicate 44 CHR ''a'' @ ''\<newline>''),
      awg_pubkey = (\<lambda>stdin. if stdin = replicate 44 CHR ''a''
                             then Some (replicate 44 CHR ''b'' @ ''\<newline>'') else None),
      awg_genpsk = Some (replicate 44 CHR ''c'' @ ''\<newline>''),
      ip_link_show = (\<lambda>interface. Some False)\<rparr>"

text \<open>The same invocation when the directory of \<^verbatim>\<open>alice\<close> is already there.\<close>

definition duplicate_world :: world where
  "duplicate_world = example_world\<lparr>files := example_fs(client_dir ''alice'' \<mapsto> Dir)\<rparr>"

text \<open>A directory for \<^verbatim>\<open>alice\<close> but no server configuration.\<close>

definition uninitialized_world :: world where
  "uninitialized_world = example_world\<lparr>files := [client_dir ''alice'' \<mapsto> Dir]\<rparr>"

text \<open>The preshared key command prints a key of the wrong length.\<close>

definition short_key_world :: world where
  "short_key_world = example_world\<lparr>awg_genpsk := Some ''tooshort''\<rparr>"

text \<open>The last host number of the /24 network is in use.\<close>

definition full_conf :: string where
  "full_conf =
     ''[Interface]\<newline>Address = 10.0.0.1/24\<newline>\<newline>[Peer]\<newline>AllowedIPs = 10.0.0.255/32\<newline>''"

definition full_world :: world where
  "full_world =
     example_world\<lparr>files := example_fs(server_config \<mapsto> File full_conf)\<rparr>"

text \<open>
  The scenario with another mask and another host number in use: the gateway has
  address 10.0.0.1 with mask length \<open>masklen\<close>, and one peer is restricted to host
  number \<open>h\<close> of the network.
\<close>

definition crowded_conf :: "nat \<Rightarrow> nat \<Rightarrow> string" where
  "crowded_conf masklen h =
     ''[Interface]\<newline>Address = 10.0.0.1/'' @ show_nat masklen @
     ''\<newline>\<newline>[Peer]\<newline>AllowedIPs = 10.0.0.'' @ show_nat h @ ''/32\<newline>''"

definition crowded_world :: "nat \<Rightarrow> nat \<Rightarrow> world" where
  "crowded_world masklen h =
     example_world\<lparr>files := example_fs(server_config \<mapsto> File (crowded_conf masklen h))\<rparr>"

text \<open>What the enrollment of \<^verbatim>\<open>alice\<close> returns in the scenario.\<close>

definition example_outcome :: outcome where
  "example_outcome =
     \<lparr>out_client_ip = ''10.0.0.3'', out_ip_num = 3,
      out_private = replicate 44 CHR ''a'',
      out_public = replicate 44 CHR ''b'',
      out_preshared = replicate 44 CHR ''c'',
      out_server_public = replicate 44 CHR ''G'',
      out_client_config =
        render_client_config (replicate 44 CHR ''a'') ''10.0.0.3'' ''1.1.1.1''
          (obf_params example_conf) (replicate 44 CHR ''G'') (replicate 44 CHR ''c'')
          ''YOUR_SERVER_IP'' ''51820'',
      out_peer_config =
        render_peer_config ''alice'' (replicate 44 CHR ''b'') (replicate 44 CHR ''c'') ''10.0.0.3'',
      out_interface = ''server''\<rparr>"


text \<open>The file system the enrollment of \<^verbatim>\<open>alice\<close> leaves.\<close>

definition example_fs_after :: filesystem where
  "example_fs_after =
     example_fs
       (config_dir \<mapsto> Dir,
        lock_file \<mapsto> File [],
        client_dir ''alice'' \<mapsto> Dir,
        client_dir ''alice'' @ ''/privatekey'' \<mapsto> File (replicate 44 CHR ''a''),
        client_dir ''alice'' @ ''/publickey'' \<mapsto> File (replicate 44 CHR ''b''),
        client_dir ''alice'' @ ''/presharedkey'' \<mapsto> File (replicate 44 CHR ''c''),
        client_config_file ''alice'' \<mapsto> File (out_client_config example_outcome),
        server_config \<mapsto> File (example_conf @ out_peer_config example_outcome),
        temp_peer_config ''alice'' := None)"

text \<open>
  A second invocation for \<^verbatim>\<open>alice\<close> that passed the checks of lines 36 to 45 before
  the first one created the directory, and then waited for the lock: what it reads as
  the server configuration, and what it returns.
\<close>

definition second_conf :: string where
  "second_conf = example_conf @ out_peer_config example_outcome"

definition second_outcome :: outcome where
  "second_outcome =
     \<lparr>out_client_ip = ''10.0.0.4'', out_ip_num = 4,
      out_private = replicate 44 CHR ''a'',
      out_public = replicate 44 CHR ''b'',
      out_preshared = replicate 44 CHR ''c'',
      out_server_public = replicate 44 CHR ''G'',
      out_client_config =
        render_client_config (replicate 44 CHR ''a'') ''10.0.0.4'' ''1.1.1.1''
          (obf_params second_conf) (replicate 44 CHR ''G'') (replicate 44 CHR ''c'')
          ''YOUR_SERVER_IP'' ''51820'',
      out_peer_config =
        render_peer_config ''alice'' (replicate 44 CHR ''b'') (replicate 44 CHR ''c'') ''10.0.0.4'',
      out_interface = ''server''\<rparr>"

text \<open>The client document of the scenario, written out.\<close>

definition example_client_config :: string where
  "example_client_config =
     ''[Interface]\<newline>PrivateKey = '' @ replicate 44 CHR ''a'' @
     ''\<newline>Address = 10.0.0.3/32\<newline>DNS = 1.1.1.1\<newline>MTU = 1280\<newline>Jc = 7\<newline>Jmin = 50\<newline>Jmax = 1000\<newline>S1 = 0\<newline>S2 = 0\<newline>S3 = 0\<newline>S4 = 0\<newline>H1 = 1\<newline>H2 = 2\<newline>H3 = 3\<newline>H4 = 4\<newline>\<newline>[Peer]\<newline>PublicKey = '' @
     replicate 44 CHR ''G'' @ ''\<newline>PresharedKey = '' @ replicate 44 CHR ''c'' @
     ''\<newline>Endpoint = YOUR_SERVER_IP:51820\<newline>AllowedIPs = 0.0.0.0/0, ::/0\<newline>PersistentKeepalive = 25\<newline>''"

section \<open>Facts about the text functions\<close>

lemma is_digit_not_space: "is_digit c \<Longrightarrow> \<not> is_space c"
  by (auto simp: is_digit_def is_space_def)

lemma lit_Some_iff: "lit p s = Some r \<longleftrightarrow> s = p @ r"
  by (auto simp: lit_def prefix_def)

lemma digits1_SomeD:
  "digits1 s = Some (d, r) \<Longrightarrow> s = d @ r \<and> d \<noteq> [] \<and> (\<forall>c\<in>set d. is_digit c)"
  by (auto simp: digits1_def split: if_splits dest: set_takeWhileD)

lemma spaces_decomp: "\<exists>ws. s = ws @ spaces s \<and> (\<forall>c\<in>set ws. is_space c)"
  unfolding spaces_def
  by (rule exI [of _ "takeWhile is_space s"]) (auto dest: set_takeWhileD)

text \<open>Universal newlines and appended text.\<close>

lemma universal_newlines_append:
  "a = [] \<or> last a \<noteq> CHR 0x0D \<or> b = [] \<or> hd b \<noteq> CHR 0x0A \<Longrightarrow>
     universal_newlines (a @ b) = universal_newlines a @ universal_newlines b"
proof (induction a rule: universal_newlines.induct)
  case 1
  then show ?case by simp
next
  case (2 c)
  then show ?case by (cases b) auto
next
  case (3 c d cs)
  then show ?case by (cases cs) (auto split: if_splits)
qed

lemma universal_newlines_id: "CHR 0x0D \<notin> set s \<Longrightarrow> universal_newlines s = s"
  by (induction s rule: universal_newlines.induct) auto

lemma universal_newlines_snoc_CR:
  "universal_newlines (a @ [CHR 0x0D]) = universal_newlines a @ [CHR 0x0A]"
  using universal_newlines_append [of a "[CHR 0x0D]"] by simp

lemma universal_newlines_before_block:
  "\<exists>u. universal_newlines (c @ CHR 0x0A # CHR ''['' # x) = universal_newlines c @ u \<and>
       (\<exists>ws t. u = ws @ CHR ''['' # t \<and> (\<forall>a\<in>set ws. is_space a))"
proof -
  define t where "t = tl (universal_newlines (CHR ''['' # x))"
  have b: "universal_newlines (CHR ''['' # x) = CHR ''['' # t"
    by (cases x) (auto simp: t_def)
  have n: "universal_newlines (CHR 0x0A # CHR ''['' # x) = CHR 0x0A # CHR ''['' # t"
    using b by simp
  have r: "universal_newlines (CHR 0x0D # CHR 0x0A # CHR ''['' # x) = CHR 0x0A # CHR ''['' # t"
    using b by simp
  show ?thesis
  proof (cases "c \<noteq> [] \<and> last c = CHR 0x0D")
    case True
    then obtain c' where c: "c = c' @ [CHR 0x0D]"
      by (metis append_butlast_last_id)
    have "universal_newlines (c @ CHR 0x0A # CHR ''['' # x) =
        universal_newlines (c' @ (CHR 0x0D # CHR 0x0A # CHR ''['' # x))"
      by (simp add: c)
    also have "\<dots> =
        universal_newlines c' @ universal_newlines (CHR 0x0D # CHR 0x0A # CHR ''['' # x)"
      by (rule universal_newlines_append) simp
    also have "\<dots> = universal_newlines c @ ([] @ CHR ''['' # t)"
      by (simp only: r c universal_newlines_snoc_CR) simp
    finally have e: "universal_newlines (c @ CHR 0x0A # CHR ''['' # x) =
        universal_newlines c @ ([] @ CHR ''['' # t)" .
    have "\<forall>a\<in>set ([] :: string). is_space a" by simp
    with e show ?thesis by blast
  next
    case False
    then have "universal_newlines (c @ CHR 0x0A # CHR ''['' # x) =
        universal_newlines c @ universal_newlines (CHR 0x0A # CHR ''['' # x)"
      by (intro universal_newlines_append) auto
    then have e: "universal_newlines (c @ CHR 0x0A # CHR ''['' # x) =
        universal_newlines c @ ([CHR 0x0A] @ CHR ''['' # t)"
      by (simp only: n) simp
    have "\<forall>a\<in>set [CHR 0x0A]. is_space a" by (simp add: is_space_def)
    with e show ?thesis by blast
  qed
qed

text \<open>Appending a text that starts a new block (white space, then a bracket) changes no
  anchored match of the address pattern.\<close>

lemma lit_append_block:
  assumes "u = ws @ CHR ''['' # t" and "\<forall>a\<in>set ws. is_space a"
    and "CHR ''['' \<notin> set p" and "\<forall>a\<in>set p. \<not> is_space a"
  shows "lit p (s @ u) = map_option (\<lambda>r. r @ u) (lit p s)"
proof (cases "prefix p s")
  case True
  then show ?thesis by (auto simp: lit_def prefix_def)
next
  case False
  have "\<not> prefix p (s @ u)"
  proof
    assume "prefix p (s @ u)"
    with False obtain us where p: "p = s @ us" and us: "us \<noteq> []" "prefix us u"
      by (auto simp: prefix_append)
    then obtain a us' where c: "us = a # us'" by (cases us) auto
    with us(2) have "a = hd u" by (auto simp: prefix_def)
    moreover have "hd u = CHR ''['' \<or> is_space (hd u)"
      using assms(1,2) by (cases ws) auto
    moreover have "a \<in> set p" using p c by simp
    ultimately show False using assms(3,4) by auto
  qed
  with False show ?thesis by (simp add: lit_def)
qed

lemma spaces_append_all:
  assumes "u = ws @ CHR ''['' # t" and "\<forall>a\<in>set ws. is_space a"
    and "\<forall>a\<in>set s. is_space a"
  shows "spaces (s @ u) = CHR ''['' # t"
proof -
  have "\<not> is_space CHR ''[''" by (simp add: is_space_def)
  then have "dropWhile is_space (CHR ''['' # t) = CHR ''['' # t" by simp
  moreover have "dropWhile is_space (s @ ws @ CHR ''['' # t) =
      dropWhile is_space (CHR ''['' # t)"
    using assms(2,3) by (simp only: dropWhile_append2)
  ultimately show ?thesis by (simp only: spaces_def assms(1))
qed

lemma spaces_append_some:
  assumes "\<not> (\<forall>a\<in>set s. is_space a)"
  shows "spaces (s @ u) = spaces s @ u"
proof -
  from assms obtain x where "x \<in> set s" and "\<not> is_space x" by blast
  then show ?thesis unfolding spaces_def by (rule dropWhile_append1)
qed

lemma lit_spaces_append_block:
  assumes "u = ws @ CHR ''['' # t" and "\<forall>a\<in>set ws. is_space a"
    and "CHR ''['' \<notin> set p" and "\<forall>a\<in>set p. \<not> is_space a" and "p \<noteq> []"
  shows "lit p (spaces (s @ u)) = map_option (\<lambda>r. r @ u) (lit p (spaces s))"
proof (cases "\<forall>a\<in>set s. is_space a")
  case True
  then have "spaces s = []" by (simp add: spaces_def)
  moreover have "lit p (CHR ''['' # t) = None"
    using assms(3,5) by (cases p) (auto simp: lit_def)
  ultimately show ?thesis
    using assms(5) by (simp add: spaces_append_all [OF assms(1,2) True] lit_def)
next
  case False
  show ?thesis
    by (simp only: spaces_append_some [OF False] lit_append_block [OF assms(1-4)])
qed

lemma digits1_append_block:
  assumes "u = ws @ CHR ''['' # t" and "\<forall>a\<in>set ws. is_space a"
  shows "digits1 (s @ u) = map_option (\<lambda>(d, r). (d, r @ u)) (digits1 s)"
proof -
  have "\<not> is_digit (hd u)"
  proof (cases ws)
    case Nil
    then show ?thesis by (simp add: assms(1) is_digit_def)
  next
    case (Cons a ws')
    then have "is_space (hd u)" using assms by simp
    then show ?thesis using is_digit_not_space by blast
  qed
  moreover have "u \<noteq> []" by (simp add: assms(1))
  ultimately have t: "takeWhile is_digit u = []" and d: "dropWhile is_digit u = u"
    by (cases u; simp)+
  show ?thesis
  proof (cases "\<forall>c\<in>set s. is_digit c")
    case True
    have a1: "takeWhile is_digit (s @ u) = s" using True by (simp add: t)
    have a2: "dropWhile is_digit (s @ u) = u" using True by (simp add: d)
    have a3: "takeWhile is_digit s = s" using True by simp
    have a4: "dropWhile is_digit s = []" using True by simp
    show ?thesis unfolding digits1_def a1 a2 a3 a4 by simp
  next
    case False
    then obtain x where "x \<in> set s" and "\<not> is_digit x" by blast
    then have "takeWhile is_digit (s @ u) = takeWhile is_digit s"
      and "dropWhile is_digit (s @ u) = dropWhile is_digit s @ u"
      by simp_all
    then show ?thesis by (simp add: digits1_def)
  qed
qed

lemma digits1_spaces_append_block:
  assumes "u = ws @ CHR ''['' # t" and "\<forall>a\<in>set ws. is_space a"
  shows "digits1 (spaces (s @ u)) = map_option (\<lambda>(d, r). (d, r @ u)) (digits1 (spaces s))"
proof (cases "\<forall>a\<in>set s. is_space a")
  case True
  then have "spaces s = []" by (simp add: spaces_def)
  moreover have "digits1 (CHR ''['' # t) = None"
    by (simp add: digits1_def is_digit_def)
  ultimately show ?thesis
    by (simp add: spaces_append_all [OF assms True] digits1_def)
next
  case False
  show ?thesis
    by (simp only: spaces_append_some [OF False] digits1_append_block [OF assms])
qed

lemma match_address_append_block:
  assumes "u = ws @ CHR ''['' # t" and "\<forall>a\<in>set ws. is_space a"
  shows "match_address (s @ u) = match_address s"
proof -
  note l = lit_append_block [OF assms] lit_spaces_append_block [OF assms]
  note d = digits1_append_block [OF assms] digits1_spaces_append_block [OF assms]
  show ?thesis
    unfolding match_address_def
    by (simp add: l d is_space_def bind_map_option comp_def split_def)
qed

lemma search_address_append_block:
  assumes "u = ws @ CHR ''['' # t" and "\<forall>a\<in>set ws. is_space a"
    and "search_address s = Some g"
  shows "search_address (s @ u) = Some g"
  using assms(3)
proof (induction s)
  case Nil
  then show ?case by (simp add: match_address_def lit_def)
next
  case (Cons c cs)
  have "match_address (c # cs @ u) = match_address (c # cs)"
    using match_address_append_block [OF assms(1,2), of "c # cs"] by simp
  with Cons show ?case by (auto split: option.splits)
qed

text \<open>The decimal rendering and its reading.\<close>

lemma digit_char_is_digit: "d < 10 \<Longrightarrow> is_digit (digit_char d)"
proof -
  assume "d < 10"
  have "list_all (\<lambda>d. is_digit (digit_char d)) [0..<10]"
    by code_simp
  with \<open>d < 10\<close> show ?thesis by (simp add: list_all_iff)
qed

lemma digit_val_digit_char: "d < 10 \<Longrightarrow> digit_val (digit_char d) = d"
  by (simp add: digit_val_def digit_char_def)

lemma show_nat_digits: "\<forall>c\<in>set (show_nat n). is_digit c"
proof (induction n rule: show_nat.induct)
  case (1 n)
  show ?case
  proof (cases "n < 10")
    case True
    then show ?thesis by (subst show_nat.simps) (simp add: digit_char_is_digit)
  next
    case False
    with 1 show ?thesis by (subst show_nat.simps) (auto simp: digit_char_is_digit)
  qed
qed

lemma show_nat_not_Nil: "show_nat n \<noteq> []"
  by (subst show_nat.simps) simp

lemma int_of_digits_snoc: "int_of_digits (s @ [c]) = 10 * int_of_digits s + digit_val c"
  by (simp add: int_of_digits_def)

lemma int_of_digits_show_nat: "int_of_digits (show_nat n) = n"
proof (induction n rule: show_nat.induct)
  case (1 n)
  show ?case
  proof (cases "n < 10")
    case True
    then show ?thesis
      by (subst show_nat.simps) (simp add: int_of_digits_def digit_val_digit_char)
  next
    case False
    with 1 show ?thesis
      by (subst show_nat.simps) (simp add: int_of_digits_snoc digit_val_digit_char)
  qed
qed

text \<open>The group of the address pattern is made of digits and dots.\<close>

lemma match_address_group:
  assumes "match_address s = Some g"
  shows "g \<noteq> [] \<and> is_digit (hd g) \<and> (\<forall>c\<in>set g. is_digit c \<or> c = CHR ''.'')"
proof -
  from assms obtain x1 x2 a x3 x4 b x5 x6 c x7 where
    "digits1 x1 = Some (a, x2)" "digits1 x3 = Some (b, x4)" "digits1 x5 = Some (c, x6)"
    and g: "g = a @ ''.'' @ b @ ''.'' @ c"
    by (auto simp: match_address_def bind_eq_Some_conv)
  then have "a \<noteq> []" "\<forall>c\<in>set a. is_digit c" "\<forall>c\<in>set b. is_digit c" "\<forall>x\<in>set c. is_digit x"
    by (auto dest!: digits1_SomeD)
  then show ?thesis by (cases a) (auto simp: g)
qed

lemma search_address_group:
  assumes "search_address s = Some g"
  shows "g \<noteq> [] \<and> is_digit (hd g) \<and> (\<forall>c\<in>set g. is_digit c \<or> c = CHR ''.'')"
  using assms
proof (induction s)
  case Nil
  then show ?case by (simp add: match_address_group)
next
  case (Cons c cs)
  then show ?case by (auto split: option.splits dest: match_address_group)
qed

text \<open>
  A match of the \<^verbatim>\<open>AllowedIPs\<close> pattern holds the letter A only as its first
  character, so no match runs into a later one, and \<^verbatim>\<open>findall\<close> reaches every match.
\<close>

lemma match_allowed_consumes:
  assumes "match_allowed p s = Some (d, r)" and "CHR ''A'' \<notin> set p"
  shows "\<exists>m. s = CHR ''A'' # m @ r \<and> CHR ''A'' \<notin> set m"
proof -
  from assms(1) obtain s1 s2 s3 s4 s5 where
    1: "lit ''AllowedIPs'' s = Some s1" and 2: "lit ''='' (spaces s1) = Some s2"
    and 3: "lit p (spaces s2) = Some s3" and 4: "lit ''.'' s3 = Some s4"
    and 5: "digits1 s4 = Some (d, s5)" and 6: "lit ''/32'' s5 = Some r"
    by (auto simp: match_allowed_def bind_eq_Some_conv)
  obtain w1 where w1: "s1 = w1 @ spaces s1" "\<forall>c\<in>set w1. is_space c"
    using spaces_decomp by blast
  obtain w2 where w2: "s2 = w2 @ spaces s2" "\<forall>c\<in>set w2. is_space c"
    using spaces_decomp by blast
  have d: "s4 = d @ s5" "\<forall>c\<in>set d. is_digit c"
    using digits1_SomeD [OF 5] by simp_all
  have nA: "\<not> is_space CHR ''A''" "\<not> is_digit CHR ''A''"
    by (simp_all add: is_space_def is_digit_def)
  define m where "m = ''llowedIPs'' @ w1 @ ''='' @ w2 @ p @ ''.'' @ d @ ''/32''"
  have "s = ''AllowedIPs'' @ s1" using 1 by (simp add: lit_Some_iff)
  also have "s1 = w1 @ ''='' @ s2" using w1(1) 2 by (simp add: lit_Some_iff)
  also have "s2 = w2 @ p @ s3" using w2(1) 3 by (simp add: lit_Some_iff)
  also have "s3 = ''.'' @ d @ ''/32'' @ r" using 4 6 d(1) by (simp add: lit_Some_iff)
  finally have "s = CHR ''A'' # m @ r" by (simp add: m_def)
  moreover have "CHR ''A'' \<notin> set m"
    using assms(2) w1(2) w2(2) d(2) nA by (auto simp: m_def)
  ultimately show ?thesis by blast
qed

lemma findall_allowed_reaches:
  assumes "match_allowed p (CHR ''A'' # good) = Some (g, r)" and "CHR ''A'' \<notin> set p"
  shows "g \<in> set (findall_allowed p (pre @ CHR ''A'' # good))"
proof (induction "length pre" arbitrary: pre rule: less_induct)
  case less
  show ?case
  proof (cases pre)
    case Nil
    then show ?thesis using assms(1) by simp
  next
    case (Cons c cs)
    show ?thesis
    proof (cases "match_allowed p (c # cs @ CHR ''A'' # good)")
      case None
      then show ?thesis using less [of cs] Cons by simp
    next
      case (Some x)
      then obtain d' r' where m: "match_allowed p (c # cs @ CHR ''A'' # good) = Some (d', r')"
        by (cases x) auto
      from match_allowed_consumes [OF m assms(2)] obtain ms where
        e: "c # cs @ CHR ''A'' # good = CHR ''A'' # ms @ r'" and n: "CHR ''A'' \<notin> set ms"
        by blast
      then have "cs @ CHR ''A'' # good = ms @ r'" by simp
      then obtain us where "cs = ms @ us \<and> us @ CHR ''A'' # good = r' \<or>
          cs @ us = ms \<and> CHR ''A'' # good = us @ r'"
        by (auto simp: append_eq_append_conv2)
      then obtain us' where r': "r' = us' @ CHR ''A'' # good" and l: "length us' \<le> length cs"
      proof
        assume "cs = ms @ us \<and> us @ CHR ''A'' # good = r'"
        then show ?thesis using that [of us] by auto
      next
        assume a: "cs @ us = ms \<and> CHR ''A'' # good = us @ r'"
        show ?thesis
        proof (cases us)
          case Nil
          with a show ?thesis using that [of "[]"] by simp
        next
          case (Cons y ys)
          with a have "y = CHR ''A''" by simp
          with a Cons n show ?thesis by auto
        qed
      qed
      have "g \<in> set (findall_allowed p r')"
        unfolding r' using l Cons by (intro less) simp
      then show ?thesis using m Cons by simp
    qed
  qed
qed

lemma match_allowed_rendered:
  assumes "p \<noteq> []" and "\<not> is_space (hd p)"
  shows "match_allowed p (''AllowedIPs = '' @ p @ ''.'' @ show_nat k @ ''/32'' @ rest) =
    Some (show_nat k, rest)"
proof -
  have s: "spaces (CHR '' '' # p @ x) = p @ x" for x
    using assms by (cases p) (simp_all add: spaces_def is_space_def)
  have nd: "\<not> is_digit CHR ''/''" by (simp add: is_digit_def)
  have "takeWhile is_digit (show_nat k @ CHR ''/'' # x) = show_nat k"
    and "dropWhile is_digit (show_nat k @ CHR ''/'' # x) = CHR ''/'' # x" for x
    using show_nat_digits [of k] nd by (simp_all add: takeWhile_tail dropWhile_append3)
  then have d: "digits1 (show_nat k @ CHR ''/'' # x) = Some (show_nat k, CHR ''/'' # x)" for x
    by (simp add: digits1_def show_nat_not_Nil)
  have e: "spaces (CHR '' '' # CHR ''='' # x) = CHR ''='' # x" for x
    by (simp add: spaces_def is_space_def)
  show ?thesis
    by (simp add: match_allowed_def lit_def e s d)
qed

text \<open>The address pattern on a text whose first word \<^verbatim>\<open>Address\<close> starts an address line.\<close>

lemma match_address_prefix: "match_address s = Some g \<Longrightarrow> prefix ''Address'' s"
  by (auto simp: match_address_def bind_eq_Some_conv lit_def split: if_splits)

lemma digits1_run:
  assumes "d \<noteq> []" and "\<forall>c\<in>set d. is_digit c" and "\<not> is_digit x"
  shows "digits1 (d @ x # r) = Some (d, x # r)"
proof -
  have "takeWhile is_digit (d @ x # r) = d" and "dropWhile is_digit (d @ x # r) = x # r"
    using assms(2,3) by (simp_all add: takeWhile_tail dropWhile_append3)
  then show ?thesis using assms(1) by (simp add: digits1_def)
qed

lemma digits1_last_run:
  assumes "m \<noteq> []" and "\<forall>c\<in>set m. is_digit c"
  shows "\<exists>e r. digits1 (m @ rest) = Some (e, r)"
proof -
  have "takeWhile is_digit (m @ rest) = m @ takeWhile is_digit rest"
    using assms(2) by simp
  then show ?thesis using assms(1) by (simp add: digits1_def)
qed

lemma match_address_spaced:
  assumes "a \<noteq> []" "b \<noteq> []" "c \<noteq> []" "d \<noteq> []" "m \<noteq> []"
    and "\<forall>x\<in>set (a @ b @ c @ d @ m). is_digit x"
    and "\<forall>x\<in>set (ws1 @ ws2). is_space x"
  shows "match_address
      (''Address'' @ ws1 @ ''='' @ ws2 @ a @ ''.'' @ b @ ''.'' @ c @ ''.'' @ d @ ''/'' @ m @ rest) =
    Some (a @ ''.'' @ b @ ''.'' @ c)"
proof -
  have nd: "\<not> is_digit CHR ''.''" "\<not> is_digit CHR ''/''" by (simp_all add: is_digit_def)
  have ne: "\<not> is_space CHR ''=''" by (simp add: is_space_def)
  have se: "spaces (ws1 @ CHR ''='' # x) = CHR ''='' # x" for x
    using assms(7) ne by (simp add: spaces_def dropWhile_append3)
  have sa: "spaces (ws2 @ a @ x) = a @ x" for x
  proof -
    obtain y ys where a: "a = y # ys" using assms(1) by (cases a) auto
    with assms(6) have "\<not> is_space y" by (simp add: is_digit_not_space)
    then show ?thesis using assms(7) by (simp add: spaces_def a dropWhile_append3)
  qed
  have da: "digits1 (a @ CHR ''.'' # x) = Some (a, CHR ''.'' # x)" for x
    using assms by (intro digits1_run) (auto simp: nd)
  have db: "digits1 (b @ CHR ''.'' # x) = Some (b, CHR ''.'' # x)" for x
    using assms by (intro digits1_run) (auto simp: nd)
  have dc: "digits1 (c @ CHR ''.'' # x) = Some (c, CHR ''.'' # x)" for x
    using assms by (intro digits1_run) (auto simp: nd)
  have dd: "digits1 (d @ CHR ''/'' # x) = Some (d, CHR ''/'' # x)" for x
    using assms by (intro digits1_run) (auto simp: nd)
  obtain e r where dm: "digits1 (m @ rest) = Some (e, r)"
    using digits1_last_run [of m rest] assms by auto
  show ?thesis
    by (simp add: match_address_def lit_def se sa da db dc dd dm)
qed

lemma prefix_append_take:
  assumes "prefix p (u @ s)" and "length p \<le> length u + k"
  shows "prefix p (u @ take k s)"
proof -
  from assms(1) have "p = take (length p) (u @ s)"
    by (metis append_eq_conv_conj prefix_def)
  also have "\<dots> = take (length p) (u @ take k s)"
  proof -
    have "length p - length u \<le> k" using assms(2) by arith
    then show ?thesis by (simp add: min_absorb1)
  qed
  finally have "p = take (length p) (u @ take k s)" .
  then show ?thesis by (metis take_is_prefix)
qed

text \<open>No match starts before the first occurrence of the word.\<close>

lemma search_address_first_word:
  assumes "\<not> sublist ''Address'' (pre @ ''Addres'')"
  shows "search_address (pre @ ''Address'' @ t) = search_address (''Address'' @ t)"
  using assms
proof (induction pre)
  case Nil
  then show ?case by simp
next
  case (Cons x xs)
  have "match_address (x # xs @ ''Address'' @ t) = None"
  proof (rule ccontr)
    assume "match_address (x # xs @ ''Address'' @ t) \<noteq> None"
    then obtain g where "match_address ((x # xs) @ ''Address'' @ t) = Some g" by auto
    then have "prefix ''Address'' ((x # xs) @ ''Address'' @ t)"
      by (rule match_address_prefix)
    then have "prefix ''Address'' ((x # xs) @ take 6 (''Address'' @ t))"
      by (rule prefix_append_take) simp
    moreover have "take 6 (''Address'' @ t) = ''Addres''" by simp
    ultimately have "prefix ''Address'' ((x # xs) @ ''Addres'')" by (simp only:)
    then have "sublist ''Address'' ((x # xs) @ ''Addres'')"
      by (rule prefix_imp_sublist)
    with Cons.prems show False by simp
  qed
  moreover have "\<not> sublist ''Address'' (xs @ ''Addres'')"
    using Cons.prems by (metis append_Cons sublist_Cons_right)
  ultimately show ?case using Cons.IH by simp
qed

lemma search_address_first_line:
  assumes "\<not> sublist ''Address'' (pre @ ''Addres'')"
    and "a \<noteq> []" "b \<noteq> []" "c \<noteq> []" "d \<noteq> []" "m \<noteq> []"
    and "\<forall>x\<in>set (a @ b @ c @ d @ m). is_digit x"
    and "\<forall>x\<in>set (ws1 @ ws2). is_space x"
  shows "search_address
      (pre @ ''Address'' @ ws1 @ ''='' @ ws2 @ a @ ''.'' @ b @ ''.'' @ c @ ''.'' @ d @ ''/'' @ m @ rest) =
    Some (a @ ''.'' @ b @ ''.'' @ c)"
proof -
  have "search_address
      (''Address'' @ ws1 @ ''='' @ ws2 @ a @ ''.'' @ b @ ''.'' @ c @ ''.'' @ d @ ''/'' @ m @ rest) =
    Some (a @ ''.'' @ b @ ''.'' @ c)"
    using match_address_spaced [OF assms(2-8), of rest] by simp
  then show ?thesis by (simp only: search_address_first_word [OF assms(1)])
qed

text \<open>What the scan for \<^verbatim>\<open>AllowedIPs\<close> entries finds, in terms of the text.\<close>

lemma match_allowed_decomp:
  assumes "match_allowed p s = Some (d, r)"
  shows "\<exists>ws1 ws2. s = ''AllowedIPs'' @ ws1 @ ''='' @ ws2 @ p @ ''.'' @ d @ ''/32'' @ r \<and>
    (\<forall>c\<in>set (ws1 @ ws2). is_space c) \<and> d \<noteq> [] \<and> (\<forall>c\<in>set d. is_digit c)"
proof -
  from assms obtain s1 s2 s3 s4 s5 where
    1: "lit ''AllowedIPs'' s = Some s1" and 2: "lit ''='' (spaces s1) = Some s2"
    and 3: "lit p (spaces s2) = Some s3" and 4: "lit ''.'' s3 = Some s4"
    and 5: "digits1 s4 = Some (d, s5)" and 6: "lit ''/32'' s5 = Some r"
    by (auto simp: match_allowed_def bind_eq_Some_conv)
  obtain w1 where w1: "s1 = w1 @ spaces s1" "\<forall>c\<in>set w1. is_space c"
    using spaces_decomp by blast
  obtain w2 where w2: "s2 = w2 @ spaces s2" "\<forall>c\<in>set w2. is_space c"
    using spaces_decomp by blast
  have d: "s4 = d @ s5" "d \<noteq> []" "\<forall>c\<in>set d. is_digit c"
    using digits1_SomeD [OF 5] by simp_all
  have "s = ''AllowedIPs'' @ s1" using 1 by (simp add: lit_Some_iff)
  also have "s1 = w1 @ ''='' @ s2" using w1(1) 2 by (simp add: lit_Some_iff)
  also have "s2 = w2 @ p @ s3" using w2(1) 3 by (simp add: lit_Some_iff)
  also have "s3 = ''.'' @ d @ ''/32'' @ r" using 4 6 d(1) by (simp add: lit_Some_iff)
  finally have "s = ''AllowedIPs'' @ w1 @ ''='' @ w2 @ p @ ''.'' @ d @ ''/32'' @ r" by simp
  with w1(2) w2(2) d(2,3) show ?thesis by (intro exI [of _ w1] exI [of _ w2]) auto
qed

lemma has_allowed_entry_Cons: "has_allowed_entry s p d \<Longrightarrow> has_allowed_entry (c # s) p d"
  unfolding has_allowed_entry_def
  by (elim exE conjE) (rule_tac x = "c # before" in exI, auto)

lemma has_allowed_entry_append: "has_allowed_entry s p d \<Longrightarrow> has_allowed_entry (x @ s) p d"
  by (induction x) (simp_all add: has_allowed_entry_Cons)

lemma findall_allowed_sound:
  "d \<in> set (findall_allowed p s) \<Longrightarrow> has_allowed_entry s p d"
proof (induction p s rule: findall_allowed.induct)
  case (1 p)
  then show ?case by simp
next
  case (2 p c cs)
  show ?case
  proof (cases "match_allowed p (c # cs)")
    case None
    with 2 have "has_allowed_entry cs p d" by simp
    then show ?thesis by (rule has_allowed_entry_Cons)
  next
    case (Some x)
    then obtain d' r where m: "match_allowed p (c # cs) = Some (d', r)" by (cases x) auto
    from match_allowed_decomp [OF m] obtain ws1 ws2 where
      e: "c # cs = ''AllowedIPs'' @ ws1 @ ''='' @ ws2 @ p @ ''.'' @ d' @ ''/32'' @ r"
      and w: "\<forall>c\<in>set (ws1 @ ws2). is_space c" "d' \<noteq> []" "\<forall>c\<in>set d'. is_digit c"
      by blast
    from 2(3) m have "d = d' \<or> d \<in> set (findall_allowed p r)" by simp
    then show ?thesis
    proof
      assume "d = d'"
      with e w show ?thesis
        unfolding has_allowed_entry_def
        by (intro exI [of _ "[]"] exI [of _ ws1] exI [of _ ws2] exI [of _ r]) simp
    next
      assume "d \<in> set (findall_allowed p r)"
      then have "has_allowed_entry r p d" by (rule 2(2) [OF m refl])
      then have "has_allowed_entry
          ((''AllowedIPs'' @ ws1 @ ''='' @ ws2 @ p @ ''.'' @ d' @ ''/32'') @ r) p d"
        by (rule has_allowed_entry_append)
      then show ?thesis by (simp add: e)
    qed
  qed
qed

lemma findall_allowed_complete:
  assumes "has_allowed_entry s p d" and "p \<noteq> []" and "\<not> is_space (hd p)"
    and "CHR ''A'' \<notin> set p"
  shows "d \<in> set (findall_allowed p s)"
proof -
  from assms(1) obtain before ws1 ws2 rest where
    s: "s = before @ ''AllowedIPs'' @ ws1 @ ''='' @ ws2 @ p @ ''.'' @ d @ ''/32'' @ rest"
    and w1: "\<forall>c\<in>set ws1. is_space c" and w2: "\<forall>c\<in>set ws2. is_space c"
    and d: "d \<noteq> []" "\<forall>c\<in>set d. is_digit c"
    unfolding has_allowed_entry_def by auto
  have ne: "\<not> is_space CHR ''=''" by (simp add: is_space_def)
  have s1: "spaces (ws1 @ CHR ''='' # x) = CHR ''='' # x" for x
    using w1 ne by (simp add: spaces_def dropWhile_append3)
  have s2: "spaces (ws2 @ p @ x) = p @ x" for x
  proof -
    obtain y ys where p: "p = y # ys" using assms(2) by (cases p) auto
    with assms(3) have "\<not> is_space y" by simp
    then show ?thesis using w2 by (simp add: spaces_def p dropWhile_append3)
  qed
  have nd: "\<not> is_digit CHR ''/''" by (simp add: is_digit_def)
  have dg: "digits1 (d @ CHR ''/'' # x) = Some (d, CHR ''/'' # x)" for x
    using d nd by (intro digits1_run)
  have "match_allowed p
      (CHR ''A'' # ''llowedIPs'' @ ws1 @ ''='' @ ws2 @ p @ ''.'' @ d @ ''/32'' @ rest) =
    Some (d, rest)"
    by (simp add: match_allowed_def lit_def s1 s2 dg)
  from findall_allowed_reaches [OF this assms(4), of before] show ?thesis
    by (simp add: s)
qed

text \<open>The entries the scan finds are the entries the text holds.\<close>

lemma findall_allowed_entries:
  assumes "p \<noteq> []" and "\<forall>x\<in>set p. is_digit x \<or> x = CHR ''.''" and "is_digit (hd p)"
  shows "d \<in> set (findall_allowed p s) \<longleftrightarrow> has_allowed_entry s p d"
proof
  assume "d \<in> set (findall_allowed p s)"
  then show "has_allowed_entry s p d" by (rule findall_allowed_sound)
next
  assume e: "has_allowed_entry s p d"
  have a: "CHR ''A'' \<notin> set p"
  proof
    assume "CHR ''A'' \<in> set p"
    with assms(2) have "is_digit CHR ''A'' \<or> CHR ''A'' = CHR ''.''" by (rule bspec)
    then show False by (simp add: is_digit_def)
  qed
  have "\<not> is_space (hd p)"
    using assms(3) by (rule is_digit_not_space)
  with e assms(1) show "d \<in> set (findall_allowed p s)"
    using a by (rule findall_allowed_complete)
qed

lemma findall_allowed_skip_char:
  "c \<noteq> CHR ''A'' \<Longrightarrow> findall_allowed p (c # s) = findall_allowed p s"
  by (simp add: match_allowed_def lit_def)

lemma findall_allowed_skip_Ad:
  "findall_allowed p (CHR ''A'' # CHR ''d'' # s) = findall_allowed p (CHR ''d'' # s)"
  by (simp add: match_allowed_def lit_def)

lemma findall_allowed_skip:
  "CHR ''A'' \<notin> set x \<Longrightarrow> findall_allowed p (x @ y) = findall_allowed p y"
proof (induction x)
  case Nil
  then show ?case by simp
next
  case (Cons a x)
  then have "a \<noteq> CHR ''A''" by auto
  then have "findall_allowed p (a # x @ y) = findall_allowed p (x @ y)"
    by (rule findall_allowed_skip_char)
  with Cons show ?case by simp
qed

text \<open>The scans on the configuration with a mask and a host number as parameters.\<close>

lemma show_nat_no_CR: "CHR 0x0D \<notin> set (show_nat n)"
proof
  assume "CHR 0x0D \<in> set (show_nat n)"
  with show_nat_digits [of n] have "is_digit CHR 0x0D" by (rule bspec)
  then show False by (simp add: is_digit_def)
qed

lemma show_nat_no_A: "CHR ''A'' \<notin> set (show_nat n)"
proof
  assume "CHR ''A'' \<in> set (show_nat n)"
  with show_nat_digits [of n] have "is_digit CHR ''A''" by (rule bspec)
  then show False by (simp add: is_digit_def)
qed

lemma crowded_newlines: "universal_newlines (crowded_conf masklen h) = crowded_conf masklen h"
  by (rule universal_newlines_id) (simp add: crowded_conf_def show_nat_no_CR)

lemma crowded_address: "search_address (crowded_conf masklen h) = Some ''10.0.0''"
proof -
  have s: "\<not> sublist ''Address'' (''[Interface]\<newline>'' @ ''Addres'')"
    by code_simp
  have sp: "\<forall>x\<in>set ('' '' @ '' ''). is_space x"
    by (simp add: is_space_def)
  have dg: "\<forall>x\<in>set (''10'' @ ''0'' @ ''0'' @ ''1'' @ show_nat masklen). is_digit x"
    using show_nat_digits [of masklen] by (simp add: is_digit_def)
  have ne: "''10'' \<noteq> []" "''0'' \<noteq> []" "''1'' \<noteq> []"
    by simp_all
  from search_address_first_line [OF s ne(1) ne(2) ne(2) ne(3) show_nat_not_Nil dg sp,
      of "''\<newline>\<newline>[Peer]\<newline>AllowedIPs = 10.0.0.'' @ show_nat h @ ''/32\<newline>''"]
  show ?thesis by (simp add: crowded_conf_def)
qed

lemma crowded_entries: "findall_allowed ''10.0.0'' (crowded_conf masklen h) = [show_nat h]"
proof -
  have m: "match_allowed ''10.0.0''
      (''AllowedIPs = '' @ ''10.0.0'' @ ''.'' @ show_nat h @ ''/32'' @ ''\<newline>'') =
    Some (show_nat h, ''\<newline>'')"
    by (rule match_allowed_rendered) (simp_all add: is_space_def)
  have m0: "match_allowed ''10.0.0'' ''\<newline>'' = None"
    by (simp add: match_allowed_def lit_def)
  have t: "findall_allowed ''10.0.0''
      (''AllowedIPs = 10.0.0.'' @ show_nat h @ ''/32\<newline>'') = [show_nat h]"
    using m m0 by simp
  have "findall_allowed ''10.0.0'' (crowded_conf masklen h) =
      findall_allowed ''10.0.0''
        (show_nat masklen @ ''\<newline>\<newline>[Peer]\<newline>AllowedIPs = 10.0.0.'' @ show_nat h @ ''/32\<newline>'')"
    unfolding crowded_conf_def
    by (simp only: append_Cons append_Nil findall_allowed_skip_char findall_allowed_skip_Ad
        char.inject simp_thms not_False_eq_True)
  also have "\<dots> = findall_allowed ''10.0.0''
        (''\<newline>\<newline>[Peer]\<newline>AllowedIPs = 10.0.0.'' @ show_nat h @ ''/32\<newline>'')"
    by (rule findall_allowed_skip) (rule show_nat_no_A)
  also have "\<dots> = findall_allowed ''10.0.0''
        (''AllowedIPs = 10.0.0.'' @ show_nat h @ ''/32\<newline>'')"
    by (simp only: append_Cons append_Nil findall_allowed_skip_char
        char.inject simp_thms not_False_eq_True)
  finally show ?thesis by (simp only: t)
qed

section \<open>Facts about the file operations\<close>

lemmas path_defs = config_dir_def server_config_def server_keys_def clients_dir_def
  client_dir_def client_config_file_def lock_file_def temp_peer_config_def

lemma makedirs_Inr: "makedirs fs p = Inr fs' \<Longrightarrow> fs' = fs(p \<mapsto> Dir)"
  by (auto simp: makedirs_def split: option.splits node.splits)

lemma write_text_Inr: "write_text fs p c = Inr fs' \<Longrightarrow> fs' = fs(p \<mapsto> File c)"
  by (auto simp: write_text_def split: option.splits node.splits)

lemma remove_file_Inr: "remove_file fs p = Inr fs' \<Longrightarrow> fs' = fs(p := None)"
  by (auto simp: remove_file_def split: option.splits node.splits)

lemma append_text_Inr:
  "append_text fs p c = Inr fs' \<Longrightarrow>
     fs' = fs(p \<mapsto> File ((case fs p of Some (File old) \<Rightarrow> old | _ \<Rightarrow> []) @ c))"
  by (auto simp: append_text_def split: option.splits node.splits)

lemma save_keys_Inr:
  "save_keys fs d a b c = (Inr u, fs') \<Longrightarrow>
     fs' = fs(d @ ''/privatekey'' \<mapsto> File a, d @ ''/publickey'' \<mapsto> File b,
              d @ ''/presharedkey'' \<mapsto> File c)"
  by (auto simp: save_keys_def split: sum.splits dest!: write_text_Inr)

lemma server_config_neq [simp]:
  "server_config \<noteq> client_dir n"
  "server_config \<noteq> client_dir n @ ''/privatekey''"
  "server_config \<noteq> client_dir n @ ''/publickey''"
  "server_config \<noteq> client_dir n @ ''/presharedkey''"
  "server_config \<noteq> client_config_file n"
  "server_config \<noteq> temp_peer_config n"
  "server_config \<noteq> lock_file"
  "server_config \<noteq> config_dir"
  by (simp_all add: path_defs)

lemma client_conf_neq [simp]:
  "client_config_file n \<noteq> temp_peer_config n"
  "client_config_file n \<noteq> server_config"
  by (simp_all add: path_defs)

lemma critical_section_success:
  assumes "critical_section w fs n = (Inr out, fs')"
  obtains server_conf vpn where
    "read_text (fs(client_dir n \<mapsto> Dir)) server_config = Inr server_conf"
    "search_address server_conf = Some vpn"
    "out_ip_num out = next_ip_num (findall_allowed vpn server_conf)"
    "out_client_ip out = vpn @ ''.'' @ show_nat (out_ip_num out)"
    "generate_keys w = Inr (out_private out, out_public out, out_preshared out)"
    "out_client_config out =
       render_client_config (out_private out) (out_client_ip out) (getenv w ''DNS'' ''1.1.1.1'')
         (obf_params server_conf) (out_server_public out) (out_preshared out)
         (getenv w ''SERVER_IP'' ''YOUR_SERVER_IP'') (getenv w ''LISTEN_PORT'' ''51820'')"
    "out_peer_config out =
       render_peer_config n (out_public out) (out_preshared out) (out_client_ip out)"
    "out_interface out = resolve_interface w"
    "fs' (client_config_file n) = Some (File (out_client_config out))"
    "fs' server_config =
       Some (File ((case fs server_config of Some (File old) \<Rightarrow> old | _ \<Rightarrow> [])
                   @ out_peer_config out))"
proof -
  note d = critical_section_def
  from assms obtain fs1 where 1: "makedirs fs (client_dir n) = Inr fs1"
    by (cases "makedirs fs (client_dir n)") (simp_all add: d)
  from assms 1 obtain server_conf where 2: "read_text fs1 server_config = Inr server_conf"
    by (cases "read_text fs1 server_config") (simp_all add: d)
  from assms 1 2 obtain vpn ipn where 3: "allocate_address server_conf = Inr (vpn, ipn)"
    by (cases "allocate_address server_conf") (auto simp: d)
  from assms 1 2 3 obtain a b c where 4: "generate_keys w = Inr (a, b, c)"
    by (cases "generate_keys w") (auto simp: d)
  from assms 1 2 3 4 obtain fs2 where
    5: "save_keys fs1 (client_dir n) a b c = (Inr (), fs2)"
    by (cases "save_keys fs1 (client_dir n) a b c"; cases "fst (save_keys fs1 (client_dir n) a b c)")
      (auto simp: d)
  from assms 1 2 3 4 5 obtain spub where 6: "get_server_public w fs2 server_conf = Inr spub"
    by (cases "get_server_public w fs2 server_conf") (auto simp: d)
  define ip where "ip = vpn @ ''.'' @ show_nat ipn"
  define cc where "cc = render_client_config a ip (getenv w ''DNS'' ''1.1.1.1'')
         (obf_params server_conf) spub c
         (getenv w ''SERVER_IP'' ''YOUR_SERVER_IP'') (getenv w ''LISTEN_PORT'' ''51820'')"
  define pc where "pc = render_peer_config n b c ip"
  from assms 1 2 3 4 5 6 obtain fs3 where
    7: "write_text fs2 (client_config_file n) cc = Inr fs3"
    by (cases "write_text fs2 (client_config_file n) cc")
      (auto simp: d cc_def ip_def)
  from assms 1 2 3 4 5 6 7 obtain fs4 where 8: "append_text fs3 server_config pc = Inr fs4"
    by (cases "append_text fs3 server_config pc") (auto simp: d cc_def ip_def pc_def)
  from assms 1 2 3 4 5 6 7 8 obtain fs5 where
    9: "write_text fs4 (temp_peer_config n) pc = Inr fs5"
    by (cases "write_text fs4 (temp_peer_config n) pc") (auto simp: d cc_def ip_def pc_def)
  from assms 1 2 3 4 5 6 7 8 9 obtain fs6 where
    10: "remove_file fs5 (temp_peer_config n) = Inr fs6"
    by (cases "remove_file fs5 (temp_peer_config n)") (auto simp: d cc_def ip_def pc_def)
  from assms 1 2 3 4 5 6 7 8 9 10 have out:
    "out = \<lparr>out_client_ip = ip, out_ip_num = ipn, out_private = a, out_public = b,
            out_preshared = c, out_server_public = spub, out_client_config = cc,
            out_peer_config = pc, out_interface = resolve_interface w\<rparr>"
    and fs': "fs' = fs6"
    by (auto simp: d Let_def cc_def ip_def pc_def)
  have f1: "fs1 = fs(client_dir n \<mapsto> Dir)" using 1 by (rule makedirs_Inr)
  have f2: "fs2 = fs1(client_dir n @ ''/privatekey'' \<mapsto> File a,
      client_dir n @ ''/publickey'' \<mapsto> File b, client_dir n @ ''/presharedkey'' \<mapsto> File c)"
    using 5 by (rule save_keys_Inr)
  have f3: "fs3 = fs2(client_config_file n \<mapsto> File cc)"
    using 7 by (rule write_text_Inr)
  have f4: "fs4 = fs3(server_config \<mapsto>
      File ((case fs3 server_config of Some (File old) \<Rightarrow> old | _ \<Rightarrow> []) @ pc))"
    using 8 by (rule append_text_Inr)
  have f5: "fs5 = fs4(temp_peer_config n \<mapsto> File pc)" using 9 by (rule write_text_Inr)
  have f6: "fs6 = fs5(temp_peer_config n := None)" using 10 by (rule remove_file_Inr)
  have s3: "fs3 server_config = fs server_config"
    by (simp add: f1 f2 f3)
  have 11: "search_address server_conf = Some vpn"
    and 12: "ipn = next_ip_num (findall_allowed vpn server_conf)"
    using 3 by (auto simp: allocate_address_def split: option.splits)
  show thesis
  proof (rule that [of server_conf vpn])
    show "read_text (fs(client_dir n \<mapsto> Dir)) server_config = Inr server_conf"
      using 2 f1 by simp
    show "fs' server_config =
       Some (File ((case fs server_config of Some (File old) \<Rightarrow> old | _ \<Rightarrow> [])
                   @ out_peer_config out))"
      by (simp add: fs' f6 f5 f4 s3 out)
    show "fs' (client_config_file n) = Some (File (out_client_config out))"
      by (simp add: fs' f6 f5 f4 f3 out)
  qed (simp_all add: out 11 12 4 ip_def cc_def pc_def)
qed

lemma makedirs_Inl: "makedirs fs p = Inl e \<Longrightarrow> e = OSError"
  by (auto simp: makedirs_def split: option.splits node.splits)

lemma read_text_Inl: "read_text fs p = Inl e \<Longrightarrow> e = OSError"
  by (auto simp: read_text_def split: option.splits node.splits)

lemma write_text_Inl: "write_text fs p c = Inl e \<Longrightarrow> e = OSError"
  by (auto simp: write_text_def split: option.splits node.splits)

lemma append_text_Inl: "append_text fs p c = Inl e \<Longrightarrow> e = OSError"
  by (auto simp: append_text_def split: option.splits node.splits)

lemma remove_file_Inl: "remove_file fs p = Inl e \<Longrightarrow> e = OSError"
  by (auto simp: remove_file_def split: option.splits node.splits)

lemma save_keys_Inl: "save_keys fs d a b c = (Inl e, fs') \<Longrightarrow> e = OSError"
  by (auto simp: save_keys_def split: sum.splits dest: write_text_Inl)

lemma run_cmd_Inl: "run_cmd_with_input r = Inl e \<Longrightarrow> e = CommandFailed"
  by (auto simp: run_cmd_with_input_def split: option.splits)

lemma allocate_address_Inl: "allocate_address c = Inl e \<Longrightarrow> e = ParseError"
  by (auto simp: allocate_address_def split: option.splits)

lemma generate_keys_Inl:
  "generate_keys w = Inl e \<Longrightarrow> e = CommandFailed \<or> e = KeyFormatError"
  by (auto simp: generate_keys_def split: sum.splits if_splits dest: run_cmd_Inl)

lemma get_server_public_Inl:
  "get_server_public w fs c = Inl e \<Longrightarrow> e = OSError \<or> e = ServerKeyNotFound \<or> e = CommandFailed"
  by (cases "read_text fs server_keys")
    (auto simp: get_server_public_def split: sum.splits if_splits option.splits
      dest: run_cmd_Inl read_text_Inl)

lemma critical_section_failure:
  assumes "critical_section w fs n = (Inl e, fs')"
  shows "e \<in> {OSError, ParseError, CommandFailed, KeyFormatError, ServerKeyNotFound}"
    and "e = ParseError \<or> e = KeyFormatError \<Longrightarrow> fs' = fs(client_dir n \<mapsto> Dir)"
proof -
  note d = critical_section_def Let_def
  have "e \<in> {OSError, ParseError, CommandFailed, KeyFormatError, ServerKeyNotFound} \<and>
    (e = ParseError \<or> e = KeyFormatError \<longrightarrow> fs' = fs(client_dir n \<mapsto> Dir))"
  proof (cases "makedirs fs (client_dir n)")
    case (Inl x)
    with assms show ?thesis by (auto simp: d dest: makedirs_Inl)
  next
    case 1: (Inr fs1)
    then have f1: "fs1 = fs(client_dir n \<mapsto> Dir)" by (rule makedirs_Inr)
    show ?thesis
    proof (cases "read_text fs1 server_config")
      case (Inl x)
      with assms 1 show ?thesis by (auto simp: d dest: read_text_Inl)
    next
      case 2: (Inr server_conf)
      show ?thesis
      proof (cases "allocate_address server_conf")
        case (Inl x)
        with assms 1 2 f1 show ?thesis by (auto simp: d dest: allocate_address_Inl)
      next
        case (Inr p)
        then obtain vpn ipn where 3: "allocate_address server_conf = Inr (vpn, ipn)"
          by (cases p) auto
        show ?thesis
        proof (cases "generate_keys w")
          case (Inl x)
          with assms 1 2 3 f1 show ?thesis by (auto simp: d dest: generate_keys_Inl)
        next
          case (Inr k)
          then obtain a b c where 4: "generate_keys w = Inr (a, b, c)"
            by (cases k) auto
          obtain r fs2 where 5: "save_keys fs1 (client_dir n) a b c = (r, fs2)"
            by (cases "save_keys fs1 (client_dir n) a b c") auto
          show ?thesis
          proof (cases r)
            case (Inl x)
            with assms 1 2 3 4 5 show ?thesis by (auto simp: d dest: save_keys_Inl)
          next
            case 6: (Inr u)
            show ?thesis
            proof (cases "get_server_public w fs2 server_conf")
              case (Inl x)
              with assms 1 2 3 4 5 6 show ?thesis by (auto simp: d dest: get_server_public_Inl)
            next
              case 7: (Inr spub)
              from assms 1 2 3 4 5 6 7 have "e = OSError"
                by (auto simp: d split: sum.splits
                    dest: write_text_Inl append_text_Inl remove_file_Inl)
              then show ?thesis by simp
            qed
          qed
        qed
      qed
    qed
  qed
  then show "e \<in> {OSError, ParseError, CommandFailed, KeyFormatError, ServerKeyNotFound}"
    and "e = ParseError \<or> e = KeyFormatError \<Longrightarrow> fs' = fs(client_dir n \<mapsto> Dir)"
    by blast+
qed

lemma main_critical:
  assumes "argv w = [prog, n]" and "precondition_check (files w) n = Inr ()"
    and "main w = (r, fs')" and "r \<noteq> Inl OSError"
  shows "critical_section w ((files w)(config_dir \<mapsto> Dir, lock_file \<mapsto> File [])) n = (r, fs')"
  using assms
  by (auto simp: main_def main_locked_after_def split: sum.splits
      dest!: makedirs_Inr write_text_Inr dest: makedirs_Inl write_text_Inl)

lemma main_precondition:
  assumes "argv w = [prog, n]" and "precondition_check (files w) n = Inl e"
  shows "main w = (Inl e, files w)"
  using assms by (simp add: main_def main_locked_after_def)

lemma main_usage:
  assumes "\<nexists>prog n. argv w = [prog, n]"
  shows "main w = (Inl UsageError, files w)"
  using assms by (auto simp: main_def main_locked_after_def split: list.splits)

lemma py_max_eq_Max: "xs \<noteq> [] \<Longrightarrow> py_max xs = Max (set xs)"
proof -
  assume "xs \<noteq> []"
  then obtain y ys where xs: "xs = y # ys" by (cases xs) auto
  have "foldl max y ys = fold max ys y"
    by (simp add: foldl_conv_fold max.commute)
  then show ?thesis
    using Max.set_eq_fold [of y ys] by (simp add: xs py_max_def)
qed

lemma show_nat_2: "show_nat 2 = ''2''"
  by code_simp

lemma next_ip_num_spec:
  "vpn @ ''.'' @ show_nat (next_ip_num ips) = nextAddress vpn (map int_of_digits ips)"
  by (simp add: next_ip_num_def nextAddress_def py_max_eq_Max show_nat_2)

lemma next_ip_num_greater: "d \<in> set ips \<Longrightarrow> int_of_digits d < next_ip_num ips"
proof -
  assume d: "d \<in> set ips"
  then have ne: "ips \<noteq> []" by auto
  have "int_of_digits d \<le> Max (set (map int_of_digits ips))"
    using d by (intro Max_ge) auto
  then show ?thesis
    using ne by (simp add: next_ip_num_def py_max_eq_Max)
qed

lemma next_ip_num_ge_2: "2 \<le> next_ip_num ips"
  by (simp add: next_ip_num_def)

lemma nextAddress_cong:
  "set used = set used' \<Longrightarrow> nextAddress p used = nextAddress p used'"
proof -
  assume s: "set used = set used'"
  then have "used = [] \<longleftrightarrow> used' = []" by (metis set_empty)
  with s show ?thesis by (simp add: nextAddress_def)
qed

lemma next_ip_num_cases:
  "next_ip_num ips = 2 \<or> (\<exists>d\<in>set ips. next_ip_num ips = int_of_digits d + 1)"
proof (cases "ips = []")
  case True
  then show ?thesis by (simp add: next_ip_num_def)
next
  case False
  then have "Max (set (map int_of_digits ips)) \<in> set (map int_of_digits ips)"
    by (intro Max_in) simp_all
  then obtain d where d: "d \<in> set ips" "Max (set (map int_of_digits ips)) = int_of_digits d"
    by auto
  have "next_ip_num ips = max (int_of_digits d + 1) 2"
    using False d(2) by (simp add: next_ip_num_def py_max_eq_Max)
  with d(1) show ?thesis by (auto simp: max_def)
qed

lemma main_success:
  assumes "fst (main w) = Inr out"
  obtains prog n where "argv w = [prog, n]"
    and "precondition_check (files w) n = Inr ()"
    and "critical_section w ((files w)(config_dir \<mapsto> Dir, lock_file \<mapsto> File [])) n
           = (Inr out, snd (main w))"
proof -
  have "\<exists>prog n. argv w = [prog, n]"
  proof (rule ccontr)
    assume "\<not> ?thesis"
    then have "main w = (Inl UsageError, files w)" by (intro main_usage) simp
    with assms show False by simp
  qed
  then obtain prog n where a: "argv w = [prog, n]" by blast
  have p: "precondition_check (files w) n = Inr ()"
  proof (cases "precondition_check (files w) n")
    case (Inl e)
    with a assms show ?thesis by (simp add: main_precondition)
  qed simp
  have "main w = (Inr out, snd (main w))"
    using assms by (cases "main w") simp
  from main_critical [OF a p this] that [OF a p] show thesis by simp
qed

lemma example_allocate:
  "allocate_address (universal_newlines example_conf) = Inr (''10.0.0'', 3)"
  by code_simp

lemma example_keys:
  "generate_keys example_world =
     Inr (replicate 44 CHR ''a'', replicate 44 CHR ''b'', replicate 44 CHR ''c'')"
  by code_simp

lemma example_keys_file:
  "find_public_key (split_nl (universal_newlines
      (''PUBLIC_KEY='' @ replicate 44 CHR ''G'' @ ''\<newline>''))) = replicate 44 CHR ''G''"
  by code_simp

lemma example_newlines: "universal_newlines example_conf = example_conf"
  by code_simp

lemma show_nat_3: "show_nat 3 = ''3''"
  by code_simp

lemma example_interface: "resolve_interface example_world = ''server''"
  by code_simp

lemma example_getenv: "getenv example_world name fallback = fallback"
  by (simp add: getenv_def example_world_def)

lemma example_world_sel:
  "argv example_world = [''add-client.py'', ''alice'']"
  "files example_world = example_fs"
  by (simp_all add: example_world_def)

lemma example_run: "main example_world = (Inr example_outcome, example_fs_after)"
proof -
  have p: "precondition_check example_fs ''alice'' = Inr ()"
    by (simp add: precondition_check_def path_exists_def example_fs_def path_defs)
  have g: "get_server_public example_world fs (universal_newlines example_conf) =
      Inr (replicate 44 CHR ''G'')"
    if "fs server_keys = Some (File (''PUBLIC_KEY='' @ replicate 44 CHR ''G'' @ ''\<newline>''))"
    for fs
    using that example_keys_file
    by (simp add: get_server_public_def path_exists_def read_text_def)
  show ?thesis
    apply (simp add: main_def main_locked_after_def example_world_sel p)
    apply (simp add: makedirs_def write_text_def example_fs_def path_defs)
    apply (simp add: critical_section_def makedirs_def read_text_def path_defs
        example_allocate example_keys save_keys_def write_text_def)
    apply (subst g)
     apply (simp add: path_defs)
    apply (simp add: Let_def write_text_def append_text_def remove_file_def path_defs
        example_newlines example_getenv example_interface show_nat_3 example_outcome_def example_fs_after_def
        example_fs_def)
    done
qed

lemma example_world_enrolls: "fst (main example_world) = Inr example_outcome"
  by (simp add: example_run)

lemma example_paths [simp]:
  "example_fs server_config = Some (File example_conf)"
  "example_fs config_dir = Some Dir"
  "example_fs lock_file = None"
  "example_fs (client_dir n) = None"
  by (simp_all add: example_fs_def path_defs)

lemma example_fs_config_dir: "example_fs(config_dir \<mapsto> Dir) = example_fs"
  by (simp add: fun_upd_idem)

lemma example_address: "search_address (universal_newlines example_conf) = Some ''10.0.0''"
  by code_simp

lemma existing_client_is_rejected_aux:
  assumes "argv w = [prog, client_name]"
    and "path_exists (files w) (client_dir client_name)"
  shows "main w =
    (Inl (if path_exists (files w) server_config then DuplicateClientError
          else NotInitializedError), files w)"
  using assms by (simp add: main_precondition precondition_check_def)

lemma key_format_failure:
  assumes "argv w = [prog, client_name]"
    and "files w config_dir = Some Dir"
    and "files w lock_file \<noteq> Some Dir"
    and "files w (client_dir client_name) = None"
    and "files w server_config = Some (File content)"
    and "search_address (universal_newlines content) = Some vpn_network"
    and "awg_genkey w = Some k1"
    and "awg_pubkey w (strip k1) = Some k2"
    and "awg_genpsk w = Some k3"
    and "length (strip k1) \<noteq> 44 \<or> length (strip k2) \<noteq> 44 \<or> length (strip k3) \<noteq> 44"
  shows "main w =
    (Inl KeyFormatError, (files w)(lock_file \<mapsto> File [], client_dir client_name \<mapsto> Dir))"
proof -
  have g: "generate_keys w = Inl KeyFormatError"
    using assms(7-10) by (auto simp: generate_keys_def run_cmd_with_input_def)
  have m: "makedirs (files w) config_dir = Inr (files w)"
    using assms(2) by (simp add: makedirs_def fun_upd_idem)
  have l: "write_text (files w) lock_file [] = Inr ((files w)(lock_file \<mapsto> File []))"
    using assms(3) by (auto simp: write_text_def split: option.splits node.splits)
  have p: "precondition_check (files w) client_name = Inr ()"
    using assms(4,5) by (simp add: precondition_check_def path_exists_def)
  have a: "allocate_address (universal_newlines content) =
      Inr (vpn_network, next_ip_num (findall_allowed vpn_network (universal_newlines content)))"
    using assms(6) by (simp add: allocate_address_def)
  have d: "makedirs ((files w)(lock_file \<mapsto> File [])) (client_dir client_name) =
      Inr ((files w)(lock_file \<mapsto> File [], client_dir client_name \<mapsto> Dir))"
    using assms(4) by (simp add: makedirs_def path_defs)
  have r: "read_text ((files w)(lock_file \<mapsto> File [], client_dir client_name \<mapsto> Dir))
      server_config = Inr (universal_newlines content)"
    using assms(5) by (simp add: read_text_def)
  show ?thesis
    by (simp add: main_def main_locked_after_def assms(1) p m l critical_section_def d r a g)
qed

lemma short_key_world_fails:
  "main short_key_world =
     (Inl KeyFormatError,
      example_fs(lock_file \<mapsto> File [], client_dir ''alice'' \<mapsto> Dir))"
proof -
  have s1: "strip (replicate 44 CHR ''a'' @ ''\<newline>'') = replicate 44 CHR ''a''"
    by code_simp
  have s3: "length (strip ''tooshort'') \<noteq> 44"
    by code_simp
  show ?thesis
    using key_format_failure [of short_key_world "''add-client.py''" "''alice''"
        example_conf "''10.0.0''" "replicate 44 CHR ''a'' @ ''\<newline>''"
        "replicate 44 CHR ''b'' @ ''\<newline>''" "''tooshort''"]
      example_address s3
    by (simp add: short_key_world_def example_world_def s1)
qed

lemma second_newlines: "universal_newlines second_conf = second_conf"
  by code_simp

lemma second_allocate: "allocate_address second_conf = Inr (''10.0.0'', 4)"
  by code_simp

lemma show_nat_4: "show_nat 4 = ''4''"
  by code_simp

lemma second_run:
  "fst (critical_section example_world example_fs_after ''alice'') = Inr second_outcome"
proof -
  have k: "example_fs_after server_keys =
      Some (File (''PUBLIC_KEY='' @ replicate 44 CHR ''G'' @ ''\<newline>''))"
    by (simp add: example_fs_after_def example_fs_def path_defs)
  have g: "get_server_public example_world fs second_conf = Inr (replicate 44 CHR ''G'')"
    if "fs server_keys = Some (File (''PUBLIC_KEY='' @ replicate 44 CHR ''G'' @ ''\<newline>''))"
    for fs
    using that example_keys_file
    by (simp add: get_server_public_def path_exists_def read_text_def)
  have c: "example_fs_after server_config = Some (File second_conf)"
    by (simp add: example_fs_after_def second_conf_def path_defs)
  have d: "example_fs_after (client_dir ''alice'') = Some Dir"
    by (simp add: example_fs_after_def path_defs)
  show ?thesis
    apply (simp add: critical_section_def makedirs_def d read_text_def c second_newlines
        second_allocate example_keys)
    apply (simp add: save_keys_def write_text_def example_fs_after_def example_fs_def path_defs)
    apply (subst g)
     apply (simp add: path_defs)
    apply (simp add: Let_def write_text_def append_text_def remove_file_def path_defs
        example_getenv example_interface show_nat_4 second_outcome_def)
    done
qed

lemma second_invocation:
  "main_locked_after (\<lambda>fs. snd (main example_world)) example_world =
     critical_section example_world example_fs_after ''alice''"
proof -
  have p: "precondition_check example_fs ''alice'' = Inr ()"
    by (simp add: precondition_check_def path_exists_def)
  show ?thesis
    by (simp add: main_locked_after_def example_world_sel p makedirs_def write_text_def
        example_run example_fs_config_dir)
qed

lemma example_obf_params:
  "obf_params example_conf =
     [(''Jc'', ''7''), (''Jmin'', ''50''), (''Jmax'', ''1000''),
      (''S1'', ''0''), (''S2'', ''0''), (''S3'', ''0''), (''S4'', ''0''),
      (''H1'', ''1''), (''H2'', ''2''), (''H3'', ''3''), (''H4'', ''4''),
      (''I1'', ''7''), (''I2'', ''0''), (''I3'', ''0''), (''I4'', ''0''), (''I5'', ''0'')]"
  by code_simp

lemma critical_section_never_duplicate:
  "fst (critical_section w fs n) \<noteq> Inl DuplicateClientError"
proof
  assume "fst (critical_section w fs n) = Inl DuplicateClientError"
  then have "critical_section w fs n =
      (Inl DuplicateClientError, snd (critical_section w fs n))"
    by (cases "critical_section w fs n") simp
  from critical_section_failure(1) [OF this] show False by simp
qed

text \<open>The run of \<open>main\<close> on the configuration with a mask and a host number as parameters.\<close>

lemma crowded_allocate:
  "allocate_address (crowded_conf masklen h) = Inr (''10.0.0'', max (h + 1) 2)"
  by (simp add: allocate_address_def crowded_address crowded_entries next_ip_num_def
      py_max_def int_of_digits_show_nat)

lemma crowded_run:
  "map_sum id (\<lambda>out. (out_ip_num out, out_client_ip out)) (fst (main (crowded_world masklen h))) =
     Inr (max (h + 1) 2, ''10.0.0.'' @ show_nat (max (h + 1) 2))"
proof -
  define fs0 where "fs0 = example_fs(server_config \<mapsto> File (crowded_conf masklen h))"
  have w: "argv (crowded_world masklen h) = [''add-client.py'', ''alice'']"
    "files (crowded_world masklen h) = fs0"
    by (simp_all add: crowded_world_def example_world_def fs0_def)
  have p: "precondition_check fs0 ''alice'' = Inr ()"
    by (simp add: precondition_check_def path_exists_def fs0_def example_fs_def path_defs)
  have k: "generate_keys (crowded_world masklen h) =
      Inr (replicate 44 CHR ''a'', replicate 44 CHR ''b'', replicate 44 CHR ''c'')"
  proof -
    have "awg_genkey (crowded_world masklen h) = awg_genkey example_world"
      and "awg_pubkey (crowded_world masklen h) = awg_pubkey example_world"
      and "awg_genpsk (crowded_world masklen h) = awg_genpsk example_world"
      by (simp_all add: crowded_world_def)
    then have "generate_keys (crowded_world masklen h) = generate_keys example_world"
      by (simp only: generate_keys_def)
    then show ?thesis by (simp only: example_keys)
  qed
  have g: "get_server_public (crowded_world masklen h) fs (crowded_conf masklen h) =
      Inr (replicate 44 CHR ''G'')"
    if "fs server_keys = Some (File (''PUBLIC_KEY='' @ replicate 44 CHR ''G'' @ ''\<newline>''))"
    for fs
    using that example_keys_file
    by (simp add: get_server_public_def path_exists_def read_text_def)
  show ?thesis
    apply (simp add: main_def main_locked_after_def w p)
    apply (simp add: makedirs_def write_text_def fs0_def example_fs_def path_defs)
    apply (simp add: critical_section_def makedirs_def read_text_def path_defs
        crowded_newlines crowded_allocate k save_keys_def write_text_def)
    apply (subst g)
     apply (simp add: path_defs)
    apply (simp add: Let_def write_text_def append_text_def remove_file_def path_defs)
    done
qed

text \<open>No run ends with the error the specification names for an exhausted network.\<close>

lemma no_exhaustion_error: "fst (main w) \<noteq> Inl AddressSpaceExhaustedError"
proof
  assume e: "fst (main w) = Inl AddressSpaceExhaustedError"
  then have m: "main w = (Inl AddressSpaceExhaustedError, snd (main w))"
    by (cases "main w") simp
  show False
  proof (cases "\<exists>prog n. argv w = [prog, n]")
    case False
    then show False using e main_usage [of w] by simp
  next
    case True
    then obtain prog n where a: "argv w = [prog, n]" by blast
    show False
    proof (cases "precondition_check (files w) n")
      case (Inl x)
      then show False
        using e main_precondition [OF a Inl]
        by (auto simp: precondition_check_def split: if_splits)
    next
      case (Inr u)
      then have "precondition_check (files w) n = Inr ()" by simp
      from main_critical [OF a this m] critical_section_failure(1) show False
        by fastforce
    qed
  qed
qed

text \<open>
  For a client name that is one path component, a successful enrollment changes the
  server configuration only by appending the peer block rendered for the client: the
  old content is a prefix of the new one. The enrollment of \<^verbatim>\<open>alice\<close> is an instance.
\<close>

lemma plain_name_enrollment_only_appends:
  assumes "argv w = [prog, client_name]" and "one_component client_name"
    and "fst (main w) = Inr out"
  shows "\<exists>old. files w server_config = Some (File old) \<and>
    snd (main w) server_config = Some (File (old @ out_peer_config out)) \<and>
    out_peer_config out =
      render_peer_config client_name (out_public out) (out_preshared out) (out_client_ip out)"
proof -
  from assms(3) obtain prog' n where a: "argv w = [prog', n]"
    and c: "critical_section w ((files w)(config_dir \<mapsto> Dir, lock_file \<mapsto> File [])) n
           = (Inr out, snd (main w))"
    by (rule main_success)
  from a assms(1) have n: "n = client_name" by simp
  from c obtain server_conf where
    r: "read_text ((files w)(config_dir \<mapsto> Dir, lock_file \<mapsto> File [], client_dir n \<mapsto> Dir))
          server_config = Inr server_conf"
    and p: "out_peer_config out =
       render_peer_config n (out_public out) (out_preshared out) (out_client_ip out)"
    and s: "snd (main w) server_config =
       Some (File ((case ((files w)(config_dir \<mapsto> Dir, lock_file \<mapsto> File [])) server_config of
                      Some (File old) \<Rightarrow> old | _ \<Rightarrow> []) @ out_peer_config out))"
    by (rule critical_section_success)
  from r obtain old where "files w server_config = Some (File old)"
    by (auto simp: read_text_def split: option.splits node.splits)
  with s p n show ?thesis by simp
qed

lemma alice_enrollment_only_appends:
  "one_component ''alice'' \<and>
   snd (main example_world) server_config =
     Some (File (example_conf @
       ''\<newline>[Peer]\<newline># Client: alice\<newline>PublicKey = '' @ replicate 44 CHR ''b'' @
       ''\<newline>PresharedKey = '' @ replicate 44 CHR ''c'' @
       ''\<newline>AllowedIPs = 10.0.0.3/32\<newline>''))"
  using plain_name_enrollment_only_appends
    [of example_world "''add-client.py''" "''alice''" example_outcome]
    example_world_enrolls
  by (simp add: example_world_def example_outcome_def render_peer_config_def one_component_def)

section \<open>The claims\<close>

text \<open>
  Claim C5, as amended. For every client name whose per-client directory exists at
  invocation, enrollment fails and leaves the whole file system, the server
  configuration included, as it was. The error is \<open>DuplicateClientError\<close> when the
  server configuration exists; when it does not, the check of line 37 comes first and
  the error is \<open>NotInitializedError\<close>.
\<close>

theorem existing_client_is_rejected:
  assumes "argv w = [prog, client_name]"
    and "path_exists (files w) (client_dir client_name)"
  shows "main w =
    (Inl (if path_exists (files w) server_config then DuplicateClientError
          else NotInitializedError), files w)"
  using assms by (rule existing_client_is_rejected_aux)

theorem existing_client_is_rejected_witness:
  "main duplicate_world = (Inl DuplicateClientError, files duplicate_world)"
  using existing_client_is_rejected [of duplicate_world "''add-client.py''" "''alice''"]
  by (simp add: duplicate_world_def example_world_def path_exists_def)

text \<open>
  Claim C5 as stated fails when the directory of the client exists and the server
  configuration does not: the error is not \<open>DuplicateClientError\<close>.
\<close>

theorem duplicate_error_counterexample:
  "argv uninitialized_world = [''add-client.py'', ''alice''] \<and>
   path_exists (files uninitialized_world) (client_dir ''alice'') \<and>
   fst (main uninitialized_world) = Inl NotInitializedError"
  by (simp add: uninitialized_world_def example_world_def path_exists_def
      main_def main_locked_after_def precondition_check_def)


text \<open>
  Claim C2. Let the text read from the server configuration hold, as the first
  occurrence of the word \<^verbatim>\<open>Address\<close>, an address line \<^verbatim>\<open>Address = a.b.c.d/m\<close> (any
  white space around the equals sign), so that the network prefix is \<open>P = a.b.c\<close>. Then
  a successful enrollment assigns \<open>P.k\<close>, where \<open>k\<close> is at least 2, greater than the
  host number of every \<^verbatim>\<open>AllowedIPs\<close> entry under \<open>P\<close> in the text, and either 2 or one
  more than the host number of such an entry; the address is the one the
  specification's \<open>nextAddress\<close> gives for \<open>P\<close> and any list of exactly those host
  numbers. The address is so a function of the text alone, and no host number in use is
  assigned again. Both \<open>P\<close> and the entries are read off the text here, not taken from
  the script's own scans. In the scenario (witness) \<open>main\<close> assigns 10.0.0.3.
\<close>

theorem next_address_assigned:
  assumes "fst (main w) = Inr out"
    and "files w server_config = Some (File content)"
    and "universal_newlines content =
       before @ ''Address'' @ ws1 @ ''='' @ ws2 @
       a @ ''.'' @ b @ ''.'' @ c @ ''.'' @ d @ ''/'' @ m @ rest"
    and "\<not> sublist ''Address'' (before @ ''Addres'')"
    and "\<forall>x\<in>set (ws1 @ ws2). is_space x"
    and "a \<noteq> []" and "b \<noteq> []" and "c \<noteq> []" and "d \<noteq> []" and "m \<noteq> []"
    and "\<forall>x\<in>set (a @ b @ c @ d @ m). is_digit x"
  shows "out_client_ip out = (a @ ''.'' @ b @ ''.'' @ c) @ ''.'' @ show_nat (out_ip_num out) \<and>
    2 \<le> out_ip_num out \<and>
    (\<forall>digits. has_allowed_entry (universal_newlines content) (a @ ''.'' @ b @ ''.'' @ c) digits
       \<longrightarrow> int_of_digits digits < out_ip_num out) \<and>
    (out_ip_num out = 2 \<or>
     (\<exists>digits. has_allowed_entry (universal_newlines content) (a @ ''.'' @ b @ ''.'' @ c) digits \<and>
        out_ip_num out = int_of_digits digits + 1)) \<and>
    (\<forall>usedHostNumbers.
       set usedHostNumbers =
         {int_of_digits digits |digits.
            has_allowed_entry (universal_newlines content) (a @ ''.'' @ b @ ''.'' @ c) digits}
       \<longrightarrow> out_client_ip out = nextAddress (a @ ''.'' @ b @ ''.'' @ c) usedHostNumbers)"
proof -
  define P where "P = a @ ''.'' @ b @ ''.'' @ c"
  define T where "T = universal_newlines content"
  from assms(1) obtain prog n where
    cs: "critical_section w ((files w)(config_dir \<mapsto> Dir, lock_file \<mapsto> File [])) n
           = (Inr out, snd (main w))"
    by (rule main_success)
  from cs obtain server_conf vpn where
    r: "read_text ((files w)(config_dir \<mapsto> Dir, lock_file \<mapsto> File [], client_dir n \<mapsto> Dir))
          server_config = Inr server_conf"
    and v: "search_address server_conf = Some vpn"
    and k: "out_ip_num out = next_ip_num (findall_allowed vpn server_conf)"
    and i: "out_client_ip out = vpn @ ''.'' @ show_nat (out_ip_num out)"
    by (rule critical_section_success)
  from r assms(2) have sc: "server_conf = T"
    by (simp add: read_text_def T_def)
  have "search_address T = Some P"
    unfolding T_def P_def assms(3)
    by (rule search_address_first_line [OF assms(4) assms(6-11) assms(5)])
  with v sc have vpn: "vpn = P" by simp
  have p1: "P \<noteq> []" by (simp add: P_def)
  have p2: "\<forall>x\<in>set P. is_digit x \<or> x = CHR ''.''"
    using assms(11) by (auto simp: P_def)
  have p3: "is_digit (hd P)"
    using assms(6,11) by (cases a) (auto simp: P_def)
  have e: "x \<in> set (findall_allowed P T) \<longleftrightarrow> has_allowed_entry T P x" for x
    by (rule findall_allowed_entries [OF p1 p2 p3])
  define ips where "ips = findall_allowed P T"
  have k': "out_ip_num out = next_ip_num ips"
    using k by (simp add: vpn sc ips_def)
  have c1: "out_client_ip out = P @ ''.'' @ show_nat (out_ip_num out)"
    using i by (simp add: vpn)
  have c2: "2 \<le> out_ip_num out"
    by (simp add: k' next_ip_num_ge_2)
  have c3: "int_of_digits x < out_ip_num out" if "has_allowed_entry T P x" for x
  proof -
    from that have "x \<in> set ips" by (simp add: ips_def e)
    then show ?thesis unfolding k' by (rule next_ip_num_greater)
  qed
  have c4: "out_ip_num out = 2 \<or>
     (\<exists>x. has_allowed_entry T P x \<and> out_ip_num out = int_of_digits x + 1)"
    using next_ip_num_cases [of ips] unfolding k' ips_def using e by blast
  have c5: "out_client_ip out = nextAddress P used"
    if "set used = {int_of_digits x |x. has_allowed_entry T P x}" for used
  proof -
    have "{int_of_digits x |x. has_allowed_entry T P x} = set (map int_of_digits ips)"
      using e by (auto simp: ips_def)
    with that have "set (map int_of_digits ips) = set used" by simp
    then have "nextAddress P (map int_of_digits ips) = nextAddress P used"
      by (rule nextAddress_cong)
    then show ?thesis
      using next_ip_num_spec [of P ips] c1 k' by simp
  qed
  from c1 c2 c3 c4 c5 show ?thesis
    unfolding P_def [symmetric] T_def [symmetric] by blast
qed

theorem next_address_assigned_witness:
  "\<exists>out. fst (main example_world) = Inr out \<and> out_ip_num out = 3 \<and>
     out_client_ip out = ''10.0.0.3'' \<and> out_client_ip out = nextAddress ''10.0.0'' [2]"
proof -
  have f: "findall_allowed ''10.0.0'' example_conf = [''2'']"
    by code_simp
  have i: "int_of_digits ''2'' = 2"
    by code_simp
  have e: "has_allowed_entry example_conf ''10.0.0'' x \<longleftrightarrow> x = ''2''" for x
    using findall_allowed_entries [of "''10.0.0''" x example_conf]
    by (simp add: f is_digit_def)
  have s: "\<not> sublist ''Address'' (''[Interface]\<newline>'' @ ''Addres'')"
    by code_simp
  have t: "universal_newlines example_conf =
      ''[Interface]\<newline>'' @ ''Address'' @ '' '' @ ''='' @ '' '' @
      ''10'' @ ''.'' @ ''0'' @ ''.'' @ ''0'' @ ''.'' @ ''1'' @ ''/'' @ ''24'' @
      ''\<newline>PrivateKey = kGatewayPrivateKey\<newline>Jc = 7\<newline>I1 = 7\<newline>\<newline>[Peer]\<newline># Client: bob\<newline>PublicKey = kBobPublicKey\<newline>PresharedKey = kBobPresharedKey\<newline>AllowedIPs = 10.0.0.2/32\<newline>''"
    by (simp add: example_newlines) (simp add: example_conf_def)
  have c: "files example_world server_config = Some (File example_conf)"
    by (simp add: example_world_def)
  have sp: "\<forall>x\<in>set ('' '' @ '' ''). is_space x"
    by (simp add: is_space_def)
  have dg: "\<forall>x\<in>set (''10'' @ ''0'' @ ''0'' @ ''1'' @ ''24''). is_digit x"
    by (simp add: is_digit_def)
  have ne: "''10'' \<noteq> []" "''0'' \<noteq> []" "''1'' \<noteq> []" "''24'' \<noteq> []"
    by simp_all
  note n = next_address_assigned [OF example_world_enrolls c t s sp ne(1) ne(2) ne(2) ne(3) ne(4) dg]
  from n have "\<forall>used.
      set used = {int_of_digits x |x.
        has_allowed_entry (universal_newlines example_conf) (''10'' @ ''.'' @ ''0'' @ ''.'' @ ''0'') x}
      \<longrightarrow> out_client_ip example_outcome = nextAddress (''10'' @ ''.'' @ ''0'' @ ''.'' @ ''0'') used"
    by (elim conjE)
  then have "set [2] = {int_of_digits x |x. has_allowed_entry example_conf ''10.0.0'' x}
      \<longrightarrow> out_client_ip example_outcome = nextAddress ''10.0.0'' [2]"
    by (simp add: example_newlines)
  then have "out_client_ip example_outcome = nextAddress ''10.0.0'' [2]"
    by (simp add: e i)
  then show ?thesis
    using example_world_enrolls by (simp add: example_outcome_def)
qed

text \<open>
  Claim C6. When the three key commands have returned their values and the stripped
  length of any of them is not 44, the enrollment that reached this step fails with
  \<open>KeyFormatError\<close>. The file system it leaves differs from the one it found only by
  the lock file and the new empty directory: no key file, no client configuration, and
  the server configuration has no new peer.
\<close>

theorem key_lengths_are_validated:
  assumes "argv w = [prog, client_name]"
    and "files w config_dir = Some Dir"
    and "files w lock_file \<noteq> Some Dir"
    and "files w (client_dir client_name) = None"
    and "files w server_config = Some (File content)"
    and "search_address (universal_newlines content) = Some vpn_network"
    and "awg_genkey w = Some k1"
    and "awg_pubkey w (strip k1) = Some k2"
    and "awg_genpsk w = Some k3"
    and "length (strip k1) \<noteq> 44 \<or> length (strip k2) \<noteq> 44 \<or> length (strip k3) \<noteq> 44"
  shows "main w =
    (Inl KeyFormatError, (files w)(lock_file \<mapsto> File [], client_dir client_name \<mapsto> Dir))"
  using assms by (rule key_format_failure)

theorem key_lengths_are_validated_witness:
  "main short_key_world =
     (Inl KeyFormatError, example_fs(lock_file \<mapsto> File [], client_dir ''alice'' \<mapsto> Dir))"
proof -
  have s1: "strip (replicate 44 CHR ''a'' @ ''\<newline>'') = replicate 44 CHR ''a''"
    by code_simp
  have s2: "strip (replicate 44 CHR ''b'' @ ''\<newline>'') = replicate 44 CHR ''b''"
    by code_simp
  have s3: "length (strip ''tooshort'') \<noteq> 44"
    by code_simp
  show ?thesis
    using key_lengths_are_validated [of short_key_world "''add-client.py''" "''alice''"
        example_conf "''10.0.0''" "replicate 44 CHR ''a'' @ ''\<newline>''"
        "replicate 44 CHR ''b'' @ ''\<newline>''" "''tooshort''"]
      example_address s3
    by (simp add: short_key_world_def example_world_def s1)
qed

text \<open>
  Claim C9, as amended. The script makes no range check: the mask of the address line
  is matched and never used, and no run ends with \<open>AddressSpaceExhaustedError\<close>. With
  gateway address 10.0.0.1 under any mask and one peer with host number \<open>h\<close> in the
  configuration, \<open>main\<close> succeeds and assigns host number \<open>max (h + 1) 2\<close>, whatever the
  mask: 10.0.0.3, the broadcast address, when 10.0.0.2 is in use on a /30 (witness).
  The bound on \<open>h\<close> keeps the decimal strings within the 4300 digits the interpreter
  converts by default; the model itself has no such limit.
\<close>

theorem no_address_range_check:
  assumes "length (show_nat (h + 1)) \<le> 4300"
  shows "fst (main w) \<noteq> Inl AddressSpaceExhaustedError \<and>
    map_sum id (\<lambda>out. (out_ip_num out, out_client_ip out))
        (fst (main (crowded_world masklen h))) =
      Inr (max (h + 1) 2, ''10.0.0.'' @ show_nat (max (h + 1) 2))"
  using no_exhaustion_error crowded_run by simp

theorem no_address_range_check_witness:
  "fst (main example_world) \<noteq> Inl AddressSpaceExhaustedError \<and>
   map_sum id (\<lambda>out. (out_ip_num out, out_client_ip out)) (fst (main (crowded_world 30 2))) =
     Inr (3, ''10.0.0.3'')"
proof -
  have l: "length (show_nat (2 + 1)) \<le> 4300"
    by code_simp
  have m: "max (2 + 1) 2 = (3::nat)"
    by simp
  show ?thesis
    using no_address_range_check [OF l, of example_world 30]
    unfolding m by (simp add: show_nat_3)
qed

text \<open>
  Claim C9 as stated fails: with 10.0.0.255/32 in use on a /24 network the enrollment
  succeeds and assigns 10.0.0.256.
\<close>

theorem address_exhaustion_counterexample:
  "(case fst (main full_world) of
      Inr out \<Rightarrow> out_client_ip out = ''10.0.0.256''
    | Inl e \<Rightarrow> False)"
  by code_simp

text \<open>
  Claim C10. When \<open>main\<close> fails with \<open>ParseError\<close> or \<open>KeyFormatError\<close>, the directory
  of the client did not exist before and exists afterwards, nothing else but the lock
  file was written, and every later invocation for the same name on that file system
  fails with \<open>DuplicateClientError\<close>.
\<close>

theorem failed_enrollment_blocks_the_name:
  assumes "argv w = [prog, client_name]"
    and "main w = (Inl e, fs')"
    and "e = ParseError \<or> e = KeyFormatError"
    and "argv w' = [prog', client_name]"
    and "files w' = fs'"
  shows "files w (client_dir client_name) = None \<and>
    fs' = (files w)(config_dir \<mapsto> Dir, lock_file \<mapsto> File [], client_dir client_name \<mapsto> Dir) \<and>
    main w' = (Inl DuplicateClientError, fs')"
proof -
  have p: "precondition_check (files w) client_name = Inr ()"
  proof (cases "precondition_check (files w) client_name")
    case (Inl x)
    with assms(1-3) show ?thesis
      by (auto simp: main_precondition precondition_check_def split: if_splits)
  qed simp
  then have n: "files w (client_dir client_name) = None"
    and s: "path_exists (files w) server_config"
    by (auto simp: precondition_check_def path_exists_def split: if_splits)
  from assms(3) have "Inl e \<noteq> (Inl OSError :: error + outcome)" by auto
  from main_critical [OF assms(1) p assms(2) this]
  have c: "critical_section w ((files w)(config_dir \<mapsto> Dir, lock_file \<mapsto> File []))
      client_name = (Inl e, fs')" .
  from critical_section_failure(2) [OF c assms(3)]
  have f: "fs' =
      (files w)(config_dir \<mapsto> Dir, lock_file \<mapsto> File [], client_dir client_name \<mapsto> Dir)" .
  have "path_exists fs' server_config" and "path_exists fs' (client_dir client_name)"
    using s by (simp_all add: f path_exists_def)
  then have "main w' = (Inl DuplicateClientError, fs')"
    using existing_client_is_rejected_aux [of w' prog' client_name] assms(4,5) by simp
  with n f show ?thesis by simp
qed

theorem failed_enrollment_blocks_the_name_witness:
  "files short_key_world (client_dir ''alice'') = None \<and>
   snd (main short_key_world) (client_dir ''alice'') = Some Dir \<and>
   main (short_key_world\<lparr>files := snd (main short_key_world)\<rparr>) =
     (Inl DuplicateClientError, snd (main short_key_world))"
  using failed_enrollment_blocks_the_name [of short_key_world "''add-client.py''" "''alice''"
      KeyFormatError "snd (main short_key_world)"
      "short_key_world\<lparr>files := snd (main short_key_world)\<rparr>" "''add-client.py''"]
    short_key_world_fails
  by (simp add: short_key_world_def example_world_def example_fs_config_dir)

text \<open>
  Claim C1, evaluated at a race. Two invocations for \<^verbatim>\<open>alice\<close> both pass the check
  of line 43 on the same file system; the first runs to its end while the second waits
  for the lock. Under the lock the second finds the directory of \<^verbatim>\<open>alice\<close> in place
  and does not fail: \<^verbatim>\<open>os.makedirs(..., exist_ok=True)\<close> accepts it, no second check is
  made, and the server configuration ends with two peer blocks for \<^verbatim>\<open>alice\<close>.
\<close>

theorem same_name_race_is_not_detected:
  "precondition_check (files example_world) ''alice'' = Inr () \<and>
   snd (main example_world) (client_dir ''alice'') = Some Dir \<and>
   fst (main_locked_after (\<lambda>fs. snd (main example_world)) example_world) = Inr second_outcome \<and>
   snd (main_locked_after (\<lambda>fs. snd (main example_world)) example_world) server_config =
     Some (File (example_conf @ out_peer_config example_outcome @ out_peer_config second_outcome))"
proof -
  have p: "precondition_check (files example_world) ''alice'' = Inr ()"
    by (simp add: precondition_check_def path_exists_def example_world_sel)
  have d: "snd (main example_world) (client_dir ''alice'') = Some Dir"
    by (simp add: example_run example_fs_after_def path_defs)
  have "critical_section example_world example_fs_after ''alice'' =
      (Inr second_outcome, snd (critical_section example_world example_fs_after ''alice''))"
    using second_run by (cases "critical_section example_world example_fs_after ''alice''") simp
  then have "snd (critical_section example_world example_fs_after ''alice'') server_config =
      Some (File ((case example_fs_after server_config of Some (File old) \<Rightarrow> old | _ \<Rightarrow> [])
                   @ out_peer_config second_outcome))"
    by (rule critical_section_success)
  moreover have "example_fs_after server_config = Some (File second_conf)"
    by (simp add: example_fs_after_def second_conf_def path_defs)
  ultimately show ?thesis
    using p d second_run by (simp add: second_invocation second_conf_def)
qed

text \<open>
  Claim C8, evaluated on a gateway configuration that sets \<^verbatim>\<open>I1 = 7\<close>. The script
  extracts the value (lines 150 to 160), but the template of lines 163 to 186 has no
  line for \<^verbatim>\<open>I1\<close> to \<^verbatim>\<open>I5\<close>: the client document carries the interface block with
  private key, /32 address, DNS, MTU 1280 and the parameters \<^verbatim>\<open>Jc\<close> to \<^verbatim>\<open>H4\<close>, then the
  peer block, and no line that starts with \<^verbatim>\<open>I1\<close>.
\<close>

theorem extracted_I_parameters_are_not_rendered:
  "fst (main example_world) = Inr example_outcome \<and>
   obf_get (obf_params example_conf) ''I1'' = ''7'' \<and>
   out_client_config example_outcome = example_client_config \<and>
   filter (prefix ''I1'') (split_nl example_client_config) = []"
proof -
  have "obf_get (obf_params example_conf) ''I1'' = ''7''"
    by (simp add: example_obf_params obf_get_def)
  moreover have "out_client_config example_outcome = example_client_config"
    by (simp add: example_outcome_def render_client_config_def example_obf_params obf_get_def
        example_client_config_def)
  moreover have "filter (prefix ''I1'') (split_nl example_client_config) = []"
    by code_simp
  ultimately show ?thesis
    using example_world_enrolls by simp
qed

end
